theory Spec2Isabelle
  imports Complex_Main "HOL-Library.Multiset"
begin

section \<open>Scoring of the ties subset (rewardbench/utils.py)\<close>

text \<open>
  This theory embeds \<^verbatim>\<open>_compute_prompt_stats\<close> and \<^verbatim>\<open>process_single_model\<close>
  of \<^verbatim>\<open>rewardbench/utils.py\<close>.

  Conventions of the embedding.
  \<^item> A Python exception is a value of \<open>pyerror\<close>; a function that can raise returns
    \<open>pyerror + 'a\<close>, with \<open>Inl\<close> for the exception.
  \<^item> A finite score is a \<open>real\<close> and finite arithmetic is exact (rounding is not
    modelled). The special values that numpy produces from finite inputs (the
    infinities of a division by zero, the NaN of \<open>0/0\<close> and of the mean of an empty
    array) are modelled explicitly by \<open>npfloat\<close>.
  \<^item> A Python \<open>dict\<close> is an association list in insertion order with distinct keys.
  \<^item> A row of the dataset has the three typed columns the scorer reads and a map of
    the remaining columns.
\<close>

subsection \<open>Exceptions, floats, rows\<close>

datatype pyerror = ValueError | IndexError | TypeError | KeyError

datatype npfloat = Fin real | PInf | NInf | NaN

text \<open>An entry of \<^verbatim>\<open>sample["scores"]\<close>: a number or a list of numbers.\<close>

datatype raw_score = Scalar real | Listed "real list"

text \<open>The value of a column the scorer does not read.\<close>

datatype cell = CNone | CInt int | CNum real | CStr string

record sample =
  sample_id :: string
  num_correct :: int
  scores :: "raw_score list"
  other :: "string \<rightharpoonup> cell"

record dataset =
  column_names :: "string list"
  rows :: "sample list"

type_synonym ('k, 'v) dict = "('k \<times> 'v) list"

type_synonym prompt_stats = "bool \<times> real option \<times> real"

subsection \<open>numpy on scalars and arrays\<close>

text \<open>
  \<^verbatim>\<open>x / d\<close> on float arrays. The divisor of the scorer is a difference
  \<open>best - worst\<close> of two finite scores with \<open>worst \<le> best\<close>, so a zero divisor is
  the positive zero, and the quotient of a nonzero \<open>x\<close> takes the sign of \<open>x\<close>.
\<close>

definition np_divide :: "real \<Rightarrow> real \<Rightarrow> npfloat" where
  "np_divide x d =
     (if d \<noteq> 0 then Fin (x / d)
      else if x = 0 then NaN
      else if 0 < x then PInf else NInf)"

fun np_sub1 :: "npfloat \<Rightarrow> npfloat" where
  "np_sub1 (Fin x) = Fin (x - 1)"
| "np_sub1 PInf = PInf"
| "np_sub1 NInf = NInf"
| "np_sub1 NaN = NaN"

fun np_tanh :: "npfloat \<Rightarrow> npfloat" where
  "np_tanh (Fin x) = Fin (tanh x)"
| "np_tanh PInf = Fin 1"
| "np_tanh NInf = Fin (- 1)"
| "np_tanh NaN = NaN"

text \<open>The largest finite double, which \<^verbatim>\<open>np.nan_to_num\<close> puts in place of an infinity.\<close>

definition float_max :: real where
  "float_max = 2 ^ 1024 - 2 ^ 971"

fun nan_to_num :: "npfloat \<Rightarrow> real" where
  "nan_to_num (Fin x) = x"
| "nan_to_num NaN = 0"
| "nan_to_num PInf = float_max"
| "nan_to_num NInf = - float_max"

text \<open>\<^verbatim>\<open>np.mean\<close>: the mean of an empty array is NaN (with a warning, no exception).\<close>

definition np_mean :: "real list \<Rightarrow> npfloat" where
  "np_mean xs = (if xs = [] then NaN else Fin (sum_list xs / real (length xs)))"

fun np_add :: "npfloat \<Rightarrow> npfloat \<Rightarrow> npfloat" where
  "np_add (Fin x) (Fin y) = Fin (x + y)"
| "np_add NaN _ = NaN"
| "np_add _ NaN = NaN"
| "np_add PInf NInf = NaN"
| "np_add NInf PInf = NaN"
| "np_add PInf _ = PInf"
| "np_add _ PInf = PInf"
| "np_add NInf _ = NInf"
| "np_add _ NInf = NInf"

text \<open>The product of a finite Python constant and a float.\<close>

fun np_scale :: "real \<Rightarrow> npfloat \<Rightarrow> npfloat" where
  "np_scale c (Fin x) = Fin (c * x)"
| "np_scale c NaN = NaN"
| "np_scale c PInf = (if 0 < c then PInf else if c < 0 then NInf else NaN)"
| "np_scale c NInf = (if 0 < c then NInf else if c < 0 then PInf else NaN)"

text \<open>
  \<^verbatim>\<open>np.array([...])\<close> of the entries \<^verbatim>\<open>tied_stats[pid][1]\<close>, as the comparison
  \<^verbatim>\<open>corr_incorrect_ties > diff_corr_margin\<close> reads it: an array holding a
  \<^verbatim>\<open>None\<close> has dtype object, and comparing a float with \<^verbatim>\<open>None\<close> raises TypeError.
\<close>

fun as_float_array :: "real option list \<Rightarrow> pyerror + real list" where
  "as_float_array [] = Inr []"
| "as_float_array (None # xs) = Inl TypeError"
| "as_float_array (Some x # xs) =
     (case as_float_array xs of Inl e \<Rightarrow> Inl e | Inr ys \<Rightarrow> Inr (x # ys))"

subsection \<open>Python builtins: max, min, str.split, int\<close>

text \<open>\<^verbatim>\<open>max\<close> and \<^verbatim>\<open>min\<close> of a list raise ValueError on the empty list.\<close>

fun py_max :: "real list \<Rightarrow> pyerror + real" where
  "py_max [] = Inl ValueError"
| "py_max (x # xs) = Inr (fold (\<lambda>item m. if m < item then item else m) xs x)"

fun py_min :: "real list \<Rightarrow> pyerror + real" where
  "py_min [] = Inl ValueError"
| "py_min (x # xs) = Inr (fold (\<lambda>item m. if item < m then item else m) xs x)"

text \<open>\<^verbatim>\<open>s.split(c)\<close> for a one-character separator.\<close>

fun split_on :: "char \<Rightarrow> string \<Rightarrow> string list" where
  "split_on c [] = [[]]"
| "split_on c (x # xs) =
     (if x = c then [] # split_on c xs
      else (case split_on c xs of [] \<Rightarrow> [[x]] | p # ps \<Rightarrow> (x # p) # ps))"

text \<open>
  \<^verbatim>\<open>int(s)\<close> in base 10, for a string of code points below 256 (a \<open>char\<close> is its code
  point). CPython replaces every non-ASCII space by a blank and then strips the ASCII
  spaces of C, so that the characters stripped at both ends are 0x09 to 0x0D, 0x20,
  0x85 and 0xA0 (the separators 0x1C to 0x1F are not stripped). One sign is allowed;
  the digits are the ASCII digits and may be separated by single underscores; a
  numeral of more than \<open>int_max_str_digits\<close> digits is refused (the default of
  \<^verbatim>\<open>sys.set_int_max_str_digits\<close>). Every refusal is a ValueError. The decimal digits
  and spaces above code point 255 are outside this string type.
\<close>

definition is_space :: "char \<Rightarrow> bool" where
  "is_space c = (c \<in> set [CHR 0x09, CHR 0x0A, CHR 0x0B, CHR 0x0C, CHR 0x0D, CHR 0x20,
                           CHR 0x85, CHR 0xA0])"

definition is_digit :: "char \<Rightarrow> bool" where
  "is_digit c = (48 \<le> (of_char c :: nat) \<and> (of_char c :: nat) \<le> 57)"

definition digit_val :: "char \<Rightarrow> nat" where
  "digit_val c = of_char c - 48"

definition int_max_str_digits :: nat where
  "int_max_str_digits = 4300"

fun parse_digits :: "nat \<Rightarrow> string \<Rightarrow> nat option" where
  "parse_digits acc [] = Some acc"
| "parse_digits acc [c] = (if is_digit c then Some (10 * acc + digit_val c) else None)"
| "parse_digits acc (c # d # ds) =
     (if is_digit c then parse_digits (10 * acc + digit_val c) (d # ds)
      else if c = CHR ''_'' \<and> is_digit d then parse_digits (10 * acc + digit_val d) ds
      else None)"

definition parse_unsigned :: "string \<Rightarrow> nat option" where
  "parse_unsigned s =
     (case s of [] \<Rightarrow> None
      | c # cs \<Rightarrow>
          if is_digit c \<and> length (filter is_digit s) \<le> int_max_str_digits
          then parse_digits (digit_val c) cs else None)"

definition strip :: "string \<Rightarrow> string" where
  "strip s = rev (dropWhile is_space (rev (dropWhile is_space s)))"

definition py_int :: "string \<Rightarrow> int option" where
  "py_int s =
     (case strip s of
        [] \<Rightarrow> None
      | c # cs \<Rightarrow>
          if c = CHR ''+'' then map_option int (parse_unsigned cs)
          else if c = CHR ''-'' then map_option (\<lambda>n. - int n) (parse_unsigned cs)
          else map_option int (parse_unsigned (c # cs)))"

subsection \<open>Dictionaries\<close>

text \<open>\<^verbatim>\<open>d[k].append(v)\<close> on a \<^verbatim>\<open>defaultdict(list)\<close>.\<close>

fun dict_append :: "'k \<Rightarrow> 'v \<Rightarrow> ('k, 'v list) dict \<Rightarrow> ('k, 'v list) dict" where
  "dict_append k v [] = [(k, [v])]"
| "dict_append k v ((k', vs) # d) =
     (if k' = k then (k', vs @ [v]) # d else (k', vs) # dict_append k v d)"

text \<open>\<^verbatim>\<open>d[k] = v\<close>: an existing key keeps its place and takes the new value.\<close>

fun dict_set :: "'k \<Rightarrow> 'v \<Rightarrow> ('k, 'v) dict \<Rightarrow> ('k, 'v) dict" where
  "dict_set k v [] = [(k, v)]"
| "dict_set k v ((k', v') # d) =
     (if k' = k then (k', v) # d else (k', v') # dict_set k v d)"

text \<open>\<^verbatim>\<open>d[k]\<close>.\<close>

definition dict_get :: "('k, 'v) dict \<Rightarrow> 'k \<Rightarrow> pyerror + 'v" where
  "dict_get d k = (case map_of d k of None \<Rightarrow> Inl KeyError | Some v \<Rightarrow> Inr v)"

text \<open>\<^verbatim>\<open>[d[k] for k in ks]\<close>.\<close>

fun dict_get_all :: "('k, 'v) dict \<Rightarrow> 'k list \<Rightarrow> pyerror + 'v list" where
  "dict_get_all d [] = Inr []"
| "dict_get_all d (k # ks) =
     (case dict_get d k of Inl e \<Rightarrow> Inl e
      | Inr v \<Rightarrow> (case dict_get_all d ks of Inl e \<Rightarrow> Inl e | Inr vs \<Rightarrow> Inr (v # vs)))"

subsection \<open>\<^verbatim>\<open>_compute_prompt_stats\<close>\<close>

definition correct_scores :: "(bool \<times> real) list \<Rightarrow> real list" where
  "correct_scores samples = map snd (filter (\<lambda>(is_corr, s). is_corr) samples)"

definition incorrect_scores :: "(bool \<times> real) list \<Rightarrow> real list" where
  "incorrect_scores samples = map snd (filter (\<lambda>(is_corr, s). \<not> is_corr) samples)"

definition compute_prompt_stats :: "(bool \<times> real) list \<Rightarrow> pyerror + prompt_stats" where
  "compute_prompt_stats samples =
     (case py_max (correct_scores samples) of
        Inl e \<Rightarrow> Inl e
      | Inr best_correct \<Rightarrow>
     (case py_min (correct_scores samples) of
        Inl e \<Rightarrow> Inl e
      | Inr worst_correct \<Rightarrow>
     (case py_max (incorrect_scores samples) of
        Inl e \<Rightarrow> Inl e
      | Inr best_incorrect \<Rightarrow>
         (let different_correct_margin =
                (if length (correct_scores samples) > 1
                 then Some (best_correct - worst_correct) else None);
              correct_incorrect_margin = worst_correct - best_incorrect;
              accurate = (correct_incorrect_margin > 0)
          in Inr (accurate, different_correct_margin, correct_incorrect_margin)))))"

subsection \<open>\<^verbatim>\<open>process_single_model\<close>: grouping the rows\<close>

text \<open>\<^verbatim>\<open>sample_type, prompt_id_str = sample["id"].split(":")\<close>, then \<^verbatim>\<open>int(prompt_id_str)\<close>.\<close>

definition parse_id :: "string \<Rightarrow> pyerror + (string \<times> int)" where
  "parse_id s =
     (case split_on CHR '':'' s of
        [sample_type, prompt_id_str] \<Rightarrow>
          (case py_int prompt_id_str of
             None \<Rightarrow> Inl ValueError
           | Some prompt_id \<Rightarrow> Inr (sample_type, prompt_id))
      | _ \<Rightarrow> Inl ValueError)"

text \<open>\<^verbatim>\<open>raw_score[0] if isinstance(raw_score, list) else raw_score\<close>.\<close>

fun unwrap_score :: "raw_score \<Rightarrow> pyerror + real" where
  "unwrap_score (Scalar x) = Inr x"
| "unwrap_score (Listed []) = Inl IndexError"
| "unwrap_score (Listed (x # xs)) = Inr x"

text \<open>The inner loop over \<^verbatim>\<open>enumerate(sample["scores"])\<close>, from position \<open>i\<close> on.\<close>

fun add_scores ::
  "string \<times> int \<Rightarrow> int \<Rightarrow> nat \<Rightarrow> raw_score list \<Rightarrow>
   (string \<times> int, (bool \<times> real) list) dict \<Rightarrow>
   pyerror + (string \<times> int, (bool \<times> real) list) dict" where
  "add_scores key nc i [] grouped = Inr grouped"
| "add_scores key nc i (raw # rest) grouped =
     (case unwrap_score raw of
        Inl e \<Rightarrow> Inl e
      | Inr score \<Rightarrow> add_scores key nc (Suc i) rest (dict_append key (int i < nc, score) grouped))"

text \<open>The outer loop over the rows.\<close>

fun group_samples ::
  "sample list \<Rightarrow> (string \<times> int, (bool \<times> real) list) dict \<Rightarrow>
   pyerror + (string \<times> int, (bool \<times> real) list) dict" where
  "group_samples [] grouped = Inr grouped"
| "group_samples (s # rest) grouped =
     (case parse_id (sample_id s) of
        Inl e \<Rightarrow> Inl e
      | Inr key \<Rightarrow>
          (case add_scores key (num_correct s) 0 (scores s) grouped of
             Inl e \<Rightarrow> Inl e
           | Inr grouped' \<Rightarrow> group_samples rest grouped'))"

subsection \<open>\<^verbatim>\<open>process_single_model\<close>: per-prompt statistics\<close>

text \<open>The loop over \<^verbatim>\<open>grouped_samples.items()\<close>, on the pair \<open>(ref_stats, tied_stats)\<close>.\<close>

fun collect_stats ::
  "(string \<times> int, (bool \<times> real) list) dict \<Rightarrow>
   (int, prompt_stats) dict \<times> (int, prompt_stats) dict \<Rightarrow>
   pyerror + ((int, prompt_stats) dict \<times> (int, prompt_stats) dict)" where
  "collect_stats [] (ref_stats, tied_stats) = Inr (ref_stats, tied_stats)"
| "collect_stats (((sample_type, prompt_id), samples) # rest) (ref_stats, tied_stats) =
     (case compute_prompt_stats samples of
        Inl e \<Rightarrow> Inl e
      | Inr stats \<Rightarrow>
          if sample_type = ''ref''
          then collect_stats rest (dict_set prompt_id stats ref_stats, tied_stats)
          else collect_stats rest (ref_stats, dict_set prompt_id stats tied_stats))"

subsection \<open>\<^verbatim>\<open>process_single_model\<close>: global metrics\<close>

text \<open>\<^verbatim>\<open>np.mean([s[0] for s in stats.values()]) if stats else 0.0\<close>.\<close>

definition accuracy :: "(int, prompt_stats) dict \<Rightarrow> npfloat" where
  "accuracy stats =
     (if stats = [] then Fin 0 else np_mean (map (\<lambda>(pid, s). of_bool (fst s)) stats))"

text \<open>
  \<^verbatim>\<open>set(ref_stats) & set(tied_stats)\<close>, enumerated in the order of \<open>ref_stats\<close>. Python
  enumerates the set in the order of its hash table; \<open>metrics_order\<close> below shows that
  the order does not matter.
\<close>

definition common_prompts :: "(int, prompt_stats) dict \<Rightarrow> (int, prompt_stats) dict \<Rightarrow> int list" where
  "common_prompts ref_stats tied_stats =
     filter (\<lambda>pid. pid \<in> set (map fst tied_stats)) (map fst ref_stats)"

text \<open>One entry of \<^verbatim>\<open>margin_scores\<close>, after \<^verbatim>\<open>np.nan_to_num\<close>.\<close>

definition margin_score :: "real \<Rightarrow> real \<Rightarrow> real \<Rightarrow> real" where
  "margin_score ref_margin tied_margin diff_margin =
     nan_to_num (np_tanh (np_sub1 (np_divide (min ref_margin tied_margin) diff_margin)))"

text \<open>
  The five metrics \<open>(tied_accuracy, ref_accuracy, correctness_preferred,
  correctness_preferred_hard, correctness_margin_score)\<close>, for the enumeration
  \<open>all_prompts\<close> of the common prompts.
\<close>

definition ties_metrics ::
  "(int, prompt_stats) dict \<Rightarrow> (int, prompt_stats) dict \<Rightarrow> int list \<Rightarrow>
   pyerror + (npfloat \<times> npfloat \<times> npfloat \<times> npfloat \<times> npfloat)" where
  "ties_metrics ref_stats tied_stats all_prompts =
     (let ref_accuracy = accuracy ref_stats;
          tied_accuracy = accuracy tied_stats
      in
     (case dict_get_all tied_stats all_prompts of
        Inl e \<Rightarrow> Inl e
      | Inr tied \<Rightarrow>
     (case dict_get_all ref_stats all_prompts of
        Inl e \<Rightarrow> Inl e
      | Inr ref \<Rightarrow>
     (case as_float_array (map (\<lambda>s. fst (snd s)) tied) of
        Inl e \<Rightarrow> Inl e
      | Inr diff_corr_margin \<Rightarrow>
         (let corr_incorrect_ties = map (\<lambda>s. snd (snd s)) tied;
              corr_incorrect_ref = map (\<lambda>s. snd (snd s)) ref;
              minimum = map2 min corr_incorrect_ref corr_incorrect_ties;
              correctness_preferred =
                np_mean (map2 (\<lambda>t d. of_bool (t > d)) corr_incorrect_ties diff_corr_margin);
              correctness_preferred_hard =
                np_mean (map2 (\<lambda>m d. of_bool (m > d)) minimum diff_corr_margin);
              margin_scores =
                map2 (\<lambda>m d. nan_to_num (np_tanh (np_sub1 (np_divide m d))))
                  minimum diff_corr_margin;
              correctness_margin_score = np_mean margin_scores
          in Inr (tied_accuracy, ref_accuracy, correctness_preferred,
                  correctness_preferred_hard, correctness_margin_score))))))"

definition weighted_sum :: "npfloat \<times> npfloat \<times> npfloat \<times> npfloat \<times> npfloat \<Rightarrow> npfloat" where
  "weighted_sum m =
     (case m of (tied_accuracy, ref_accuracy, correctness_preferred,
                 correctness_preferred_hard, correctness_margin_score) \<Rightarrow>
        np_add (np_add (np_add (np_add
          (np_scale (30 / 100) tied_accuracy)
          (np_scale (30 / 100) ref_accuracy))
          (np_scale (20 / 100) correctness_preferred))
          (np_scale (20 / 100) correctness_preferred_hard))
          (np_scale (1 / 100) correctness_margin_score))"

text \<open>The statistics of a list of rows: both loops.\<close>

definition ties_stats ::
  "sample list \<Rightarrow> pyerror + ((int, prompt_stats) dict \<times> (int, prompt_stats) dict)" where
  "ties_stats ds =
     (case group_samples ds [] of
        Inl e \<Rightarrow> Inl e
      | Inr grouped_samples \<Rightarrow> collect_stats grouped_samples ([], []))"

text \<open>\<open>overall_score\<close> of a list of rows.\<close>

definition ties_score :: "sample list \<Rightarrow> pyerror + npfloat" where
  "ties_score ds =
     (case ties_stats ds of
        Inl e \<Rightarrow> Inl e
      | Inr (ref_stats, tied_stats) \<Rightarrow>
          (case ties_metrics ref_stats tied_stats (common_prompts ref_stats tied_stats) of
             Inl e \<Rightarrow> Inl e
           | Inr m \<Rightarrow> Inr (weighted_sum m)))"

subsection \<open>\<^verbatim>\<open>process_single_model\<close>: packaging\<close>

definition remove_columns :: "string \<Rightarrow> dataset \<Rightarrow> dataset" where
  "remove_columns name d =
     d\<lparr>column_names := filter (\<lambda>c. c \<noteq> name) (column_names d),
       rows := map (\<lambda>r. r\<lparr>other := (other r)(name := None)\<rparr>) (rows d)\<rparr>"

definition add_column :: "string \<Rightarrow> cell list \<Rightarrow> dataset \<Rightarrow> dataset" where
  "add_column name vals d =
     d\<lparr>column_names := column_names d @ [name],
       rows := map2 (\<lambda>r v. r\<lparr>other := (other r)(name \<mapsto> v)\<rparr>) (rows d) vals\<rparr>"

definition package_results :: "dataset \<Rightarrow> dataset" where
  "package_results dataset =
     (let dataset' = (if ''results'' \<in> set (column_names dataset)
                      then remove_columns ''results'' dataset else dataset)
      in add_column ''results'' (replicate (length (rows dataset')) CNone) dataset')"

definition process_single_model :: "dataset \<Rightarrow> pyerror + (dataset \<times> npfloat)" where
  "process_single_model dataset =
     (case ties_score (rows dataset) of
        Inl e \<Rightarrow> Inl e
      | Inr overall_score \<Rightarrow> Inr (package_results dataset, overall_score))"


subsection \<open>Notions used in the proofs\<close>

text \<open>The pairs that the inner loop appends for one row, up to the first raw score that raises.\<close>

fun score_entries :: "int \<Rightarrow> nat \<Rightarrow> raw_score list \<Rightarrow> (bool \<times> real) list" where
  "score_entries nc i [] = []"
| "score_entries nc i (raw # rest) =
     (case unwrap_score raw of
        Inl e \<Rightarrow> []
      | Inr score \<Rightarrow> (int i < nc, score) # score_entries nc (Suc i) rest)"

text \<open>The pairs of one row, each with the key of the row.\<close>

definition row_items :: "sample \<Rightarrow> ((string \<times> int) \<times> bool \<times> real) list" where
  "row_items s =
     (case parse_id (sample_id s) of
        Inl e \<Rightarrow> []
      | Inr key \<Rightarrow> map (Pair key) (score_entries (num_correct s) 0 (scores s)))"

text \<open>The rows on which the loop body does not raise.\<close>

definition row_ok :: "sample \<Rightarrow> bool" where
  "row_ok s =
     (case parse_id (sample_id s) of Inl e \<Rightarrow> False | Inr key \<Rightarrow> Listed [] \<notin> set (scores s))"

text \<open>The pairs of a dictionary of lists, each with its key.\<close>

definition dict_items :: "('k, 'v list) dict \<Rightarrow> ('k \<times> 'v) list" where
  "dict_items d = concat (map (\<lambda>(k, vs). map (Pair k) vs) d)"

text \<open>The keys of a dictionary are distinct; a \<^verbatim>\<open>defaultdict\<close> filled by \<^verbatim>\<open>append\<close> has no empty list.\<close>

definition dict_inv :: "('k, 'v list) dict \<Rightarrow> bool" where
  "dict_inv d = (distinct (map fst d) \<and> [] \<notin> snd ` set d)"

text \<open>The keys of the rows whose sample type is not \<open>ref\<close>.\<close>

definition tied_keys :: "sample list \<Rightarrow> (string \<times> int) list" where
  "tied_keys ds =
     filter (\<lambda>key. fst key \<noteq> ''ref'')
       (concat (map (\<lambda>s. case parse_id (sample_id s) of Inl e \<Rightarrow> [] | Inr key \<Rightarrow> [key]) ds))"

text \<open>No prompt id occurs under two different sample types other than \<open>ref\<close>; it holds whenever every sample type is \<open>ref\<close> or \<open>tied\<close>.\<close>

definition one_type_per_prompt :: "sample list \<Rightarrow> bool" where
  "one_type_per_prompt ds =
     list_all (\<lambda>k1. list_all (\<lambda>k2. snd k1 = snd k2 \<longrightarrow> fst k1 = fst k2) (tied_keys ds))
       (tied_keys ds)"

text \<open>The statistics that the loop over the groups stores in \<open>ref_stats\<close>, in the order of the stores.\<close>

definition ref_entries ::
  "(string \<times> int, (bool \<times> real) list) dict \<Rightarrow> (int \<times> prompt_stats) list" where
  "ref_entries grouped =
     map (\<lambda>((t, p), g). (p, projr (compute_prompt_stats g)))
       (filter (\<lambda>((t, p), g). t = ''ref'') grouped)"

text \<open>The statistics that the loop over the groups stores in \<open>tied_stats\<close>, in the order of the stores.\<close>

definition tied_entries ::
  "(string \<times> int, (bool \<times> real) list) dict \<Rightarrow> (int \<times> prompt_stats) list" where
  "tied_entries grouped =
     map (\<lambda>((t, p), g). (p, projr (compute_prompt_stats g)))
       (filter (\<lambda>((t, p), g). t \<noteq> ''ref'') grouped)"

subsection \<open>Example datasets\<close>

text \<open>
  The example of the specification: one reference prompt and one tied prompt with the
  same prompt id, with a \<open>results\<close> column and one more column.
\<close>

definition example_dataset :: dataset where
  "example_dataset =
     \<lparr>column_names = [''id'', ''num_correct'', ''scores'', ''results'', ''model''],
      rows = [\<lparr>sample_id = ''ref:0'', num_correct = 1, scores = [Scalar 5, Scalar 2, Scalar 1],
               other = [''results'' \<mapsto> CInt 1, ''model'' \<mapsto> CStr ''rm'']\<rparr>,
              \<lparr>sample_id = ''tied:0'', num_correct = 2,
               scores = [Scalar 5, Listed [4], Scalar 2, Scalar 1],
               other = [''results'' \<mapsto> CInt 0, ''model'' \<mapsto> CStr ''rm'']\<rparr>]\<rparr>"

text \<open>
  A tied group whose two correct scores are equal (zero spread), and a dataset whose
  reference and tied prompts have different prompt ids.
\<close>

definition zero_spread_rows :: "sample list" where
  "zero_spread_rows =
     [\<lparr>sample_id = ''ref:0'', num_correct = 1, scores = [Scalar 5, Scalar 2, Scalar 1],
       other = Map.empty\<rparr>,
      \<lparr>sample_id = ''tied:0'', num_correct = 2, scores = [Scalar 5, Scalar 5, Scalar 2, Scalar 1],
       other = Map.empty\<rparr>]"

definition disjoint_rows :: "sample list" where
  "disjoint_rows =
     [\<lparr>sample_id = ''ref:0'', num_correct = 1, scores = [Scalar 5, Scalar 2, Scalar 1],
       other = Map.empty\<rparr>,
      \<lparr>sample_id = ''tied:1'', num_correct = 2, scores = [Scalar 5, Scalar 4, Scalar 2, Scalar 1],
       other = Map.empty\<rparr>]"

text \<open>
  Two well-formed groups with the same prompt id in which the incorrect answer has the
  highest score.
\<close>

definition low_dataset :: dataset where
  "low_dataset =
     \<lparr>column_names = [''id'', ''num_correct'', ''scores''],
      rows = [\<lparr>sample_id = ''ref:0'', num_correct = 1, scores = [Scalar 1, Scalar 4],
               other = Map.empty\<rparr>,
              \<lparr>sample_id = ''tied:0'', num_correct = 2, scores = [Scalar 2, Scalar 1, Scalar 4],
               other = Map.empty\<rparr>]\<rparr>"

text \<open>A reference prompt and two groups with the same prompt id under two sample types other than \<open>ref\<close>.\<close>

definition overwrite_dataset :: dataset where
  "overwrite_dataset =
     \<lparr>column_names = [''id'', ''num_correct'', ''scores''],
      rows = [\<lparr>sample_id = ''ref:0'', num_correct = 1, scores = [Scalar 5, Scalar 1],
               other = Map.empty\<rparr>,
              \<lparr>sample_id = ''tied:0'', num_correct = 2, scores = [Scalar 5, Scalar 4, Scalar 1],
               other = Map.empty\<rparr>,
              \<lparr>sample_id = ''other:0'', num_correct = 2, scores = [Scalar 2, Scalar 1, Scalar 5],
               other = Map.empty\<rparr>]\<rparr>"

subsection \<open>The same functions on floats that may be NaN\<close>

text \<open>
  Above, a score is a \<open>real\<close>. A Python float may also be NaN, on which every
  comparison is false; the functions that compare or subtract scores are given once
  more over such floats, and are shown below to agree with the ones above on numbers.
\<close>

text \<open>A Python float that is a number or NaN. The infinities are not represented: a score is a number or NaN.\<close>

datatype pyfloat = Num real | NaNf

text \<open>A raw score, a row and a dataset, with such floats as scores.\<close>

datatype fraw_score = FScalar pyfloat | FListed "pyfloat list"

record fsample =
  fsample_id :: string
  fnum_correct :: int
  fscores :: "fraw_score list"
  fother :: "string \<rightharpoonup> cell"

record fdataset =
  fcolumn_names :: "string list"
  frows :: "fsample list"

text \<open>The tuple that \<^verbatim>\<open>_compute_prompt_stats\<close> returns.\<close>

type_synonym fprompt_stats = "bool \<times> pyfloat option \<times> pyfloat"

text \<open>Every comparison with NaN is false; every arithmetic operation on NaN gives NaN, and so does \<^verbatim>\<open>np.minimum\<close>.\<close>

definition fl_less :: "pyfloat \<Rightarrow> pyfloat \<Rightarrow> bool" where
  "fl_less a b = (case (a, b) of (Num x, Num y) \<Rightarrow> x < y | _ \<Rightarrow> False)"

definition fl_sub :: "pyfloat \<Rightarrow> pyfloat \<Rightarrow> pyfloat" where
  "fl_sub a b = (case (a, b) of (Num x, Num y) \<Rightarrow> Num (x - y) | _ \<Rightarrow> NaNf)"

definition np_minimum :: "pyfloat \<Rightarrow> pyfloat \<Rightarrow> pyfloat" where
  "np_minimum a b = (case (a, b) of (Num x, Num y) \<Rightarrow> Num (min x y) | _ \<Rightarrow> NaNf)"

text \<open>The division of two array elements: \<^verbatim>\<open>np_divide\<close> on numbers, NaN otherwise.\<close>

definition fl_divide :: "pyfloat \<Rightarrow> pyfloat \<Rightarrow> npfloat" where
  "fl_divide a b = (case (a, b) of (Num x, Num y) \<Rightarrow> np_divide x y | _ \<Rightarrow> NaN)"

text \<open>The builtins \<^verbatim>\<open>max\<close> and \<^verbatim>\<open>min\<close> keep the first item and replace it by a later one that compares greater (smaller): with NaN among the items the result depends on their order.\<close>

fun py_max_f :: "pyfloat list \<Rightarrow> pyerror + pyfloat" where
  "py_max_f [] = Inl ValueError"
| "py_max_f (x # xs) = Inr (fold (\<lambda>item m. if fl_less m item then item else m) xs x)"

fun py_min_f :: "pyfloat list \<Rightarrow> pyerror + pyfloat" where
  "py_min_f [] = Inl ValueError"
| "py_min_f (x # xs) = Inr (fold (\<lambda>item m. if fl_less item m then item else m) xs x)"

text \<open>The functions of the source once more, with these floats as scores. Each one is the function of the same name without the suffix, with the float operations in place of the operations on \<open>real\<close>.\<close>

definition correct_scores_f :: "(bool \<times> pyfloat) list \<Rightarrow> pyfloat list" where
  "correct_scores_f samples = map snd (filter (\<lambda>(is_corr, s). is_corr) samples)"

definition incorrect_scores_f :: "(bool \<times> pyfloat) list \<Rightarrow> pyfloat list" where
  "incorrect_scores_f samples = map snd (filter (\<lambda>(is_corr, s). \<not> is_corr) samples)"

definition compute_prompt_stats_f :: "(bool \<times> pyfloat) list \<Rightarrow> pyerror + fprompt_stats" where
  "compute_prompt_stats_f samples =
     (case py_max_f (correct_scores_f samples) of
        Inl e \<Rightarrow> Inl e
      | Inr best_correct \<Rightarrow>
     (case py_min_f (correct_scores_f samples) of
        Inl e \<Rightarrow> Inl e
      | Inr worst_correct \<Rightarrow>
     (case py_max_f (incorrect_scores_f samples) of
        Inl e \<Rightarrow> Inl e
      | Inr best_incorrect \<Rightarrow>
         (let different_correct_margin =
                (if length (correct_scores_f samples) > 1
                 then Some (fl_sub best_correct worst_correct) else None);
              correct_incorrect_margin = fl_sub worst_correct best_incorrect;
              accurate = fl_less (Num 0) correct_incorrect_margin
          in Inr (accurate, different_correct_margin, correct_incorrect_margin)))))"

text \<open>\<^verbatim>\<open>raw_score[0] if isinstance(raw_score, list) else raw_score\<close>, and the two loops of the grouping.\<close>

fun unwrap_score_f :: "fraw_score \<Rightarrow> pyerror + pyfloat" where
  "unwrap_score_f (FScalar x) = Inr x"
| "unwrap_score_f (FListed []) = Inl IndexError"
| "unwrap_score_f (FListed (x # xs)) = Inr x"

fun add_scores_f ::
  "string \<times> int \<Rightarrow> int \<Rightarrow> nat \<Rightarrow> fraw_score list \<Rightarrow>
   (string \<times> int, (bool \<times> pyfloat) list) dict \<Rightarrow>
   pyerror + (string \<times> int, (bool \<times> pyfloat) list) dict" where
  "add_scores_f key nc i [] grouped = Inr grouped"
| "add_scores_f key nc i (raw # rest) grouped =
     (case unwrap_score_f raw of
        Inl e \<Rightarrow> Inl e
      | Inr score \<Rightarrow>
          add_scores_f key nc (Suc i) rest (dict_append key (int i < nc, score) grouped))"

fun group_samples_f ::
  "fsample list \<Rightarrow> (string \<times> int, (bool \<times> pyfloat) list) dict \<Rightarrow>
   pyerror + (string \<times> int, (bool \<times> pyfloat) list) dict" where
  "group_samples_f [] grouped = Inr grouped"
| "group_samples_f (s # rest) grouped =
     (case parse_id (fsample_id s) of
        Inl e \<Rightarrow> Inl e
      | Inr key \<Rightarrow>
          (case add_scores_f key (fnum_correct s) 0 (fscores s) grouped of
             Inl e \<Rightarrow> Inl e
           | Inr grouped' \<Rightarrow> group_samples_f rest grouped'))"

text \<open>The loop over the groups.\<close>

fun collect_stats_f ::
  "(string \<times> int, (bool \<times> pyfloat) list) dict \<Rightarrow>
   (int, fprompt_stats) dict \<times> (int, fprompt_stats) dict \<Rightarrow>
   pyerror + ((int, fprompt_stats) dict \<times> (int, fprompt_stats) dict)" where
  "collect_stats_f [] (ref_stats, tied_stats) = Inr (ref_stats, tied_stats)"
| "collect_stats_f (((sample_type, prompt_id), samples) # rest) (ref_stats, tied_stats) =
     (case compute_prompt_stats_f samples of
        Inl e \<Rightarrow> Inl e
      | Inr stats \<Rightarrow>
          if sample_type = ''ref''
          then collect_stats_f rest (dict_set prompt_id stats ref_stats, tied_stats)
          else collect_stats_f rest (ref_stats, dict_set prompt_id stats tied_stats))"

text \<open>The global metrics.\<close>

definition accuracy_f :: "(int, fprompt_stats) dict \<Rightarrow> npfloat" where
  "accuracy_f stats =
     (if stats = [] then Fin 0 else np_mean (map (\<lambda>(pid, s). of_bool (fst s)) stats))"

definition common_prompts_f ::
  "(int, fprompt_stats) dict \<Rightarrow> (int, fprompt_stats) dict \<Rightarrow> int list" where
  "common_prompts_f ref_stats tied_stats =
     filter (\<lambda>pid. pid \<in> set (map fst tied_stats)) (map fst ref_stats)"

fun as_float_array_f :: "pyfloat option list \<Rightarrow> pyerror + pyfloat list" where
  "as_float_array_f [] = Inr []"
| "as_float_array_f (None # xs) = Inl TypeError"
| "as_float_array_f (Some x # xs) =
     (case as_float_array_f xs of Inl e \<Rightarrow> Inl e | Inr ys \<Rightarrow> Inr (x # ys))"

definition ties_metrics_f ::
  "(int, fprompt_stats) dict \<Rightarrow> (int, fprompt_stats) dict \<Rightarrow> int list \<Rightarrow>
   pyerror + (npfloat \<times> npfloat \<times> npfloat \<times> npfloat \<times> npfloat)" where
  "ties_metrics_f ref_stats tied_stats all_prompts =
     (let ref_accuracy = accuracy_f ref_stats;
          tied_accuracy = accuracy_f tied_stats
      in
     (case dict_get_all tied_stats all_prompts of
        Inl e \<Rightarrow> Inl e
      | Inr tied \<Rightarrow>
     (case dict_get_all ref_stats all_prompts of
        Inl e \<Rightarrow> Inl e
      | Inr ref \<Rightarrow>
     (case as_float_array_f (map (\<lambda>s. fst (snd s)) tied) of
        Inl e \<Rightarrow> Inl e
      | Inr diff_corr_margin \<Rightarrow>
         (let corr_incorrect_ties = map (\<lambda>s. snd (snd s)) tied;
              corr_incorrect_ref = map (\<lambda>s. snd (snd s)) ref;
              minimum = map2 np_minimum corr_incorrect_ref corr_incorrect_ties;
              correctness_preferred =
                np_mean (map2 (\<lambda>t d. of_bool (fl_less d t)) corr_incorrect_ties diff_corr_margin);
              correctness_preferred_hard =
                np_mean (map2 (\<lambda>m d. of_bool (fl_less d m)) minimum diff_corr_margin);
              margin_scores =
                map2 (\<lambda>m d. nan_to_num (np_tanh (np_sub1 (fl_divide m d))))
                  minimum diff_corr_margin;
              correctness_margin_score = np_mean margin_scores
          in Inr (tied_accuracy, ref_accuracy, correctness_preferred,
                  correctness_preferred_hard, correctness_margin_score))))))"

text \<open>The call up to the two dictionaries, and up to the overall score.\<close>

definition ties_stats_f ::
  "fsample list \<Rightarrow> pyerror + ((int, fprompt_stats) dict \<times> (int, fprompt_stats) dict)" where
  "ties_stats_f ds =
     (case group_samples_f ds [] of
        Inl e \<Rightarrow> Inl e
      | Inr grouped_samples \<Rightarrow> collect_stats_f grouped_samples ([], []))"

definition ties_score_f :: "fsample list \<Rightarrow> pyerror + npfloat" where
  "ties_score_f ds =
     (case ties_stats_f ds of
        Inl e \<Rightarrow> Inl e
      | Inr (ref_stats, tied_stats) \<Rightarrow>
          (case ties_metrics_f ref_stats tied_stats (common_prompts_f ref_stats tied_stats) of
             Inl e \<Rightarrow> Inl e
           | Inr m \<Rightarrow> Inr (weighted_sum m)))"

text \<open>The returned dataset.\<close>

definition remove_columns_f :: "string \<Rightarrow> fdataset \<Rightarrow> fdataset" where
  "remove_columns_f name d =
     d\<lparr>fcolumn_names := filter (\<lambda>c. c \<noteq> name) (fcolumn_names d),
       frows := map (\<lambda>r. r\<lparr>fother := (fother r)(name := None)\<rparr>) (frows d)\<rparr>"

definition add_column_f :: "string \<Rightarrow> cell list \<Rightarrow> fdataset \<Rightarrow> fdataset" where
  "add_column_f name vals d =
     d\<lparr>fcolumn_names := fcolumn_names d @ [name],
       frows := map2 (\<lambda>r v. r\<lparr>fother := (fother r)(name \<mapsto> v)\<rparr>) (frows d) vals\<rparr>"

definition package_results_f :: "fdataset \<Rightarrow> fdataset" where
  "package_results_f dataset =
     (let dataset' = (if ''results'' \<in> set (fcolumn_names dataset)
                      then remove_columns_f ''results'' dataset else dataset)
      in add_column_f ''results'' (replicate (length (frows dataset')) CNone) dataset')"

definition process_single_model_f :: "fdataset \<Rightarrow> pyerror + (fdataset \<times> npfloat)" where
  "process_single_model_f dataset =
     (case ties_score_f (frows dataset) of
        Inl e \<Rightarrow> Inl e
      | Inr overall_score \<Rightarrow> Inr (package_results_f dataset, overall_score))"

subsection \<open>Numbers among the floats\<close>

text \<open>A raw score, a row, a dataset and a tuple of statistics over \<open>real\<close>, read as ones whose floats are all numbers.\<close>

fun num_raw :: "raw_score \<Rightarrow> fraw_score" where
  "num_raw (Scalar x) = FScalar (Num x)"
| "num_raw (Listed xs) = FListed (map Num xs)"

definition num_sample :: "sample \<Rightarrow> fsample" where
  "num_sample s =
     \<lparr>fsample_id = sample_id s, fnum_correct = num_correct s,
      fscores = map num_raw (scores s), fother = other s\<rparr>"

definition num_dataset :: "dataset \<Rightarrow> fdataset" where
  "num_dataset d = \<lparr>fcolumn_names = column_names d, frows = map num_sample (rows d)\<rparr>"

definition num_stats :: "prompt_stats \<Rightarrow> fprompt_stats" where
  "num_stats st = (fst st, map_option Num (fst (snd st)), Num (snd (snd st)))"







subsection \<open>More example datasets\<close>




section \<open>Properties of \<^verbatim>\<open>_compute_prompt_stats\<close>\<close>

lemma py_max_Max: "xs \<noteq> [] \<Longrightarrow> py_max xs = Inr (Max (set xs))"
proof -
  have f: "(\<lambda>item m. if m < item then item else m) = (max :: real \<Rightarrow> real \<Rightarrow> real)"
    by (intro ext) (simp add: max_def)
  assume "xs \<noteq> []"
  then obtain y ys where xs: "xs = y # ys" by (cases xs) auto
  show ?thesis unfolding xs by (simp only: py_max.simps f Max.set_eq_fold)
qed

lemma py_min_Min: "xs \<noteq> [] \<Longrightarrow> py_min xs = Inr (Min (set xs))"
proof -
  have f: "(\<lambda>item m. if item < m then item else m) = (min :: real \<Rightarrow> real \<Rightarrow> real)"
    by (intro ext) (simp add: min_def)
  assume "xs \<noteq> []"
  then obtain y ys where xs: "xs = y # ys" by (cases xs) auto
  show ?thesis unfolding xs by (simp only: py_min.simps f Min.set_eq_fold)
qed

lemma set_correct_scores: "set (correct_scores samples) = {s. (True, s) \<in> set samples}"
  by (force simp: correct_scores_def)

lemma set_incorrect_scores: "set (incorrect_scores samples) = {s. (False, s) \<in> set samples}"
  by (force simp: incorrect_scores_def)

lemma length_correct_scores: "length (correct_scores samples) = length (filter fst samples)"
proof -
  have "(\<lambda>(is_corr, s). is_corr) = (fst :: bool \<times> real \<Rightarrow> bool)" by auto
  then show ?thesis by (simp add: correct_scores_def)
qed

text \<open>The result on a group with a correct and an incorrect entry.\<close>

lemma compute_prompt_stats_ok:
  assumes "correct_scores samples \<noteq> []" and "incorrect_scores samples \<noteq> []"
  shows "compute_prompt_stats samples =
         Inr (Min (set (correct_scores samples)) - Max (set (incorrect_scores samples)) > 0,
              (if length (correct_scores samples) > 1
               then Some (Max (set (correct_scores samples)) - Min (set (correct_scores samples)))
               else None),
              Min (set (correct_scores samples)) - Max (set (incorrect_scores samples)))"
  using assms by (simp add: compute_prompt_stats_def py_max_Max py_min_Min Let_def)

text \<open>The result on any other group: the ValueError of \<^verbatim>\<open>max\<close> on an empty list.\<close>

lemma compute_prompt_stats_fails:
  assumes "correct_scores samples = [] \<or> incorrect_scores samples = []"
  shows "compute_prompt_stats samples = Inl ValueError"
proof (cases "correct_scores samples = []")
  case True
  then show ?thesis by (simp add: compute_prompt_stats_def)
next
  case False
  with assms have "incorrect_scores samples = []" by simp
  with False show ?thesis by (simp add: compute_prompt_stats_def py_max_Max py_min_Min)
qed

lemma compute_prompt_stats_error: "compute_prompt_stats samples = Inl e \<Longrightarrow> e = ValueError"
  by (cases "correct_scores samples = [] \<or> incorrect_scores samples = []")
     (auto simp: compute_prompt_stats_fails compute_prompt_stats_ok)

text \<open>
  C1. On a group with at least one correct and at least one incorrect entry,
  \<^verbatim>\<open>_compute_prompt_stats\<close> returns; its \<open>correct_incorrect_margin\<close> is the least
  correct score minus the greatest incorrect score, and \<open>accurate\<close> holds exactly when
  that margin is positive, that is when the worst correct score is above the best
  incorrect score.
\<close>

theorem prompt_stats_margin_accurate:
  assumes "\<exists>s. (True, s) \<in> set samples" and "\<exists>s. (False, s) \<in> set samples"
  shows "\<exists>accurate dcm margin.
           compute_prompt_stats samples = Inr (accurate, dcm, margin) \<and>
           margin = Min {s. (True, s) \<in> set samples} - Max {s. (False, s) \<in> set samples} \<and>
           accurate = (margin > 0) \<and>
           accurate = (Min {s. (True, s) \<in> set samples} > Max {s. (False, s) \<in> set samples})"
proof -
  from assms have "correct_scores samples \<noteq> []" "incorrect_scores samples \<noteq> []"
    using set_correct_scores [of samples] set_incorrect_scores [of samples] by auto
  from compute_prompt_stats_ok [OF this] show ?thesis
    by (simp add: set_correct_scores set_incorrect_scores)
qed

theorem prompt_stats_margin_accurate_witness:
  "(\<exists>s. (True, s) \<in> set [(True, 5), (True, 4), (False, 2), (False, 1 :: real)]) \<and>
   (\<exists>s. (False, s) \<in> set [(True, 5), (True, 4), (False, 2), (False, 1 :: real)]) \<and>
   (\<exists>accurate dcm.
      compute_prompt_stats [(True, 5), (True, 4), (False, 2), (False, 1)] =
        Inr (accurate, dcm, 2) \<and> accurate)"
proof -
  let ?g = "[(True, 5), (True, 4), (False, 2), (False, 1 :: real)]"
  have c: "{s. (True, s) \<in> set ?g} = {5, 4}" by auto
  have i: "{s. (False, s) \<in> set ?g} = {2, 1}" by auto
  have h: "\<exists>s. (True, s) \<in> set ?g" "\<exists>s. (False, s) \<in> set ?g" by auto
  from prompt_stats_margin_accurate [OF h] obtain a d m where
    "compute_prompt_stats ?g = Inr (a, d, m)" "m = 2" "a = (m > 0)"
    unfolding c i by auto
  with h show ?thesis by auto
qed

lemma compute_prompt_stats_Inr:
  assumes "compute_prompt_stats samples = Inr (accurate, dcm, margin)"
  shows "correct_scores samples \<noteq> []" and "incorrect_scores samples \<noteq> []"
    and "dcm = (if length (correct_scores samples) > 1
                then Some (Max (set (correct_scores samples)) - Min (set (correct_scores samples)))
                else None)"
proof -
  have ne: "\<not> (correct_scores samples = [] \<or> incorrect_scores samples = [])"
    using assms compute_prompt_stats_fails [of samples] by auto
  then show c: "correct_scores samples \<noteq> []" and i: "incorrect_scores samples \<noteq> []"
    by simp_all
  from compute_prompt_stats_ok [OF c i] assms
  show "dcm = (if length (correct_scores samples) > 1
                then Some (Max (set (correct_scores samples)) - Min (set (correct_scores samples)))
                else None)"
    by simp
qed

text \<open>
  C6. On a group with exactly one correct entry, the \<open>different_correct_margin\<close> that
  \<^verbatim>\<open>_compute_prompt_stats\<close> returns is \<^verbatim>\<open>None\<close>, never a number; on a group with two
  correct entries or more, it is the greatest correct score minus the least correct
  score. In both cases the function returns when the group has an incorrect entry.
\<close>

theorem different_correct_margin_defined:
  "(length (filter fst samples) = 1 \<longrightarrow>
      (\<forall>accurate dcm margin.
         compute_prompt_stats samples = Inr (accurate, dcm, margin) \<longrightarrow> dcm = None) \<and>
      ((\<exists>s. (False, s) \<in> set samples) \<longrightarrow>
         (\<exists>accurate margin. compute_prompt_stats samples = Inr (accurate, None, margin)))) \<and>
   (length (filter fst samples) \<ge> 2 \<longrightarrow>
      (\<forall>accurate dcm margin.
         compute_prompt_stats samples = Inr (accurate, dcm, margin) \<longrightarrow>
         dcm = Some (Max {s. (True, s) \<in> set samples} - Min {s. (True, s) \<in> set samples})) \<and>
      ((\<exists>s. (False, s) \<in> set samples) \<longrightarrow>
         (\<exists>accurate margin. compute_prompt_stats samples =
            Inr (accurate,
                 Some (Max {s. (True, s) \<in> set samples} - Min {s. (True, s) \<in> set samples}),
                 margin))))"
proof (intro conjI impI allI)
  fix accurate dcm margin
  assume "length (filter fst samples) = 1"
    and "compute_prompt_stats samples = Inr (accurate, dcm, margin)"
  then show "dcm = None"
    using compute_prompt_stats_Inr(3) [of samples accurate dcm margin]
    by (simp add: length_correct_scores)
next
  assume l: "length (filter fst samples) = 1" and "\<exists>s. (False, s) \<in> set samples"
  then have i: "incorrect_scores samples \<noteq> []"
    using set_incorrect_scores [of samples] by auto
  from l have l': "length (correct_scores samples) = 1" by (simp add: length_correct_scores)
  then have "correct_scores samples \<noteq> []" by auto
  from compute_prompt_stats_ok [OF this i] l'
  show "\<exists>accurate margin. compute_prompt_stats samples = Inr (accurate, None, margin)"
    by simp
next
  fix accurate dcm margin
  assume "length (filter fst samples) \<ge> 2"
    and "compute_prompt_stats samples = Inr (accurate, dcm, margin)"
  then show "dcm = Some (Max {s. (True, s) \<in> set samples} - Min {s. (True, s) \<in> set samples})"
    using compute_prompt_stats_Inr(3) [of samples accurate dcm margin]
    by (simp add: length_correct_scores set_correct_scores)
next
  assume l: "length (filter fst samples) \<ge> 2" and "\<exists>s. (False, s) \<in> set samples"
  then have i: "incorrect_scores samples \<noteq> []"
    using set_incorrect_scores [of samples] by auto
  from l have l': "length (correct_scores samples) > 1" by (simp add: length_correct_scores)
  then have "correct_scores samples \<noteq> []" by auto
  from compute_prompt_stats_ok [OF this i] l'
  show "\<exists>accurate margin. compute_prompt_stats samples =
            Inr (accurate,
                 Some (Max {s. (True, s) \<in> set samples} - Min {s. (True, s) \<in> set samples}),
                 margin)"
    by (simp add: set_correct_scores)
qed

theorem different_correct_margin_defined_witness:
  "length (filter fst [(True, 5), (False, 2 :: real)]) = 1 \<and>
   (\<exists>s. (False, s) \<in> set [(True, 5), (False, 2 :: real)]) \<and>
   (\<exists>accurate margin. compute_prompt_stats [(True, 5), (False, 2)] = Inr (accurate, None, margin)) \<and>
   length (filter fst [(True, 5), (True, 3), (False, 2 :: real)]) \<ge> 2 \<and>
   (\<exists>s. (False, s) \<in> set [(True, 5), (True, 3), (False, 2 :: real)]) \<and>
   (\<exists>accurate margin.
      compute_prompt_stats [(True, 5), (True, 3), (False, 2)] = Inr (accurate, Some 2, margin))"
proof -
  let ?g = "[(True, 5), (False, 2 :: real)]"
  let ?h = "[(True, 5), (True, 3), (False, 2 :: real)]"
  have lg: "length (filter fst ?g) = 1" by simp
  have hg: "\<exists>s. (False, s) \<in> set ?g" by auto
  from different_correct_margin_defined [of ?g] lg hg
  have g: "\<exists>a m. compute_prompt_stats ?g = Inr (a, None, m)" by blast
  have c: "{s. (True, s) \<in> set ?h} = {5, 3}" by auto
  have lh: "length (filter fst ?h) \<ge> 2" by simp
  have hh: "\<exists>s. (False, s) \<in> set ?h" by auto
  from different_correct_margin_defined [of ?h] lh hh
  have "\<exists>a m. compute_prompt_stats ?h =
      Inr (a, Some (Max {s. (True, s) \<in> set ?h} - Min {s. (True, s) \<in> set ?h}), m)"
    by blast
  then have h: "\<exists>a m. compute_prompt_stats ?h = Inr (a, Some 2, m)"
    unfolding c by simp
  from lg hg g lh hh h show ?thesis by blast
qed

section \<open>Evaluation on concrete inputs\<close>

lemmas parse_id_eval = parse_id_def py_int_def strip_def is_space_def parse_unsigned_def
  is_digit_def digit_val_def int_max_str_digits_def

lemmas ties_eval = ties_score_def ties_stats_def compute_prompt_stats_def correct_scores_def
  incorrect_scores_def ties_metrics_def common_prompts_def accuracy_def np_mean_def
  weighted_sum_def dict_get_def np_divide_def process_single_model_def

section \<open>Failures of \<^verbatim>\<open>process_single_model\<close>\<close>

text \<open>A group that \<^verbatim>\<open>_compute_prompt_stats\<close> rejects aborts the loop over the groups.\<close>

lemma collect_stats_fails:
  "(key, samples) \<in> set grouped \<Longrightarrow> compute_prompt_stats samples = Inl e \<Longrightarrow>
   collect_stats grouped acc = Inl ValueError"
proof (induction grouped arbitrary: acc)
  case Nil
  then show ?case by simp
next
  case (Cons x grouped)
  obtain t p g where x: "x = ((t, p), g)" by (metis surj_pair)
  obtain rs ts where acc: "acc = (rs, ts)" by (cases acc)
  show ?case
  proof (cases "compute_prompt_stats g")
    case (Inl e')
    then show ?thesis using compute_prompt_stats_error [OF Inl] by (simp add: x acc)
  next
    case (Inr st)
    with Cons.prems have "(key, samples) \<in> set grouped" by (auto simp: x)
    from Cons.IH [OF this Cons.prems(2)] Inr show ?thesis by (simp add: x acc)
  qed
qed

text \<open>
  C8 (as amended). On a group without a correct entry or without an incorrect entry,
  \<^verbatim>\<open>_compute_prompt_stats\<close> raises the builtin ValueError of \<^verbatim>\<open>max\<close> on an empty
  list, and \<^verbatim>\<open>process_single_model\<close> on a dataset whose grouping holds such a group
  raises that ValueError and returns nothing.
\<close>

theorem invalid_group_raises_ValueError:
  assumes "\<not> (\<exists>s. (True, s) \<in> set samples) \<or> \<not> (\<exists>s. (False, s) \<in> set samples)"
  shows "compute_prompt_stats samples = Inl ValueError \<and>
         (\<forall>dataset grouped key.
            group_samples (rows dataset) [] = Inr grouped \<and> (key, samples) \<in> set grouped \<longrightarrow>
            process_single_model dataset = Inl ValueError)"
proof -
  from assms have "correct_scores samples = [] \<or> incorrect_scores samples = []"
    using set_correct_scores [of samples] set_incorrect_scores [of samples] by auto
  then have f: "compute_prompt_stats samples = Inl ValueError"
    by (rule compute_prompt_stats_fails)
  have "process_single_model dataset = Inl ValueError"
    if "group_samples (rows dataset) [] = Inr grouped" "(key, samples) \<in> set grouped"
    for dataset grouped key
    using that collect_stats_fails [OF that(2) f, of "([], [])"]
    by (simp add: process_single_model_def ties_score_def ties_stats_def)
  with f show ?thesis by blast
qed

text \<open>
  The source defines no exception class of its own: the exception of an ill-formed
  group is the generic ValueError, on the group alone and through the whole call.
\<close>

theorem invalid_group_counterexample:
  "compute_prompt_stats [(True, 5), (True, 4)] = Inl ValueError \<and>
   process_single_model
     \<lparr>column_names = [''id'', ''num_correct'', ''scores''],
      rows = [\<lparr>sample_id = ''tied:0'', num_correct = 2, scores = [Scalar 5, Scalar 4],
               other = Map.empty\<rparr>]\<rparr> = Inl ValueError"
  by (simp add: ties_eval parse_id_eval)

theorem invalid_group_raises_ValueError_witness:
  "\<not> (\<exists>s. (False, s) \<in> set [(True, 5), (True, 4 :: real)]) \<and>
   group_samples [\<lparr>sample_id = ''tied:0'', num_correct = 2, scores = [Scalar 5, Scalar 4],
               other = Map.empty\<rparr>] [] = Inr [((''tied'', 0), [(True, 5), (True, 4)])] \<and>
   compute_prompt_stats [(True, 5), (True, 4)] = Inl ValueError \<and>
   process_single_model
     \<lparr>column_names = [''id'', ''num_correct'', ''scores''],
      rows = [\<lparr>sample_id = ''tied:0'', num_correct = 2, scores = [Scalar 5, Scalar 4],
               other = Map.empty\<rparr>]\<rparr> = Inl ValueError"
proof -
  let ?g = "[(True, 5), (True, 4 :: real)]"
  let ?d = "\<lparr>column_names = [''id'', ''num_correct'', ''scores''],
      rows = [\<lparr>sample_id = ''tied:0'', num_correct = 2, scores = [Scalar 5, Scalar 4],
               other = Map.empty\<rparr>]\<rparr>"
  have h: "\<not> (\<exists>s. (True, s) \<in> set ?g) \<or> \<not> (\<exists>s. (False, s) \<in> set ?g)" by simp
  have g: "group_samples (rows ?d) [] = Inr [((''tied'', 0), ?g)]"
    by (simp add: parse_id_eval)
  from invalid_group_raises_ValueError [OF h] g
  have "compute_prompt_stats ?g = Inl ValueError" "process_single_model ?d = Inl ValueError"
    by auto
  with h g show ?thesis by simp
qed

text \<open>The ids that \<^verbatim>\<open>split(":")\<close> and \<^verbatim>\<open>int\<close> accept.\<close>

lemma split_on_nonempty: "split_on c s \<noteq> []"
  by (induction s) (auto split: list.splits)

lemma split_on_single: "split_on c s = [p] \<longleftrightarrow> s = p \<and> c \<notin> set p"
proof (induction s arbitrary: p)
  case Nil
  then show ?case by auto
next
  case (Cons x s)
  show ?case
  proof (cases "x = c")
    case True
    then show ?thesis using split_on_nonempty [of c s] by auto
  next
    case False
    then show ?thesis using Cons [of "tl p"] split_on_nonempty [of c s]
      by (cases p) (auto split: list.splits)
  qed
qed

lemma split_on_pair:
  "split_on c s = [t, n] \<longleftrightarrow> s = t @ c # n \<and> c \<notin> set t \<and> c \<notin> set n"
proof (induction s arbitrary: t)
  case Nil
  then show ?case by auto
next
  case (Cons x s)
  show ?case
  proof (cases "x = c")
    case True
    then show ?thesis using split_on_single [of c s n]
      by (cases t) auto
  next
    case False
    show ?thesis
    proof (cases t)
      case Nil
      with False show ?thesis by (auto split: list.splits)
    next
      case (Cons y t')
      with False Cons.IH [of t'] show ?thesis
        by (auto split: list.splits)
    qed
  qed
qed

lemma parse_id_Inr:
  "parse_id s = Inr (t, v) \<longleftrightarrow>
   (\<exists>n. s = t @ CHR '':'' # n \<and> CHR '':'' \<notin> set t \<and> CHR '':'' \<notin> set n \<and> py_int n = Some v)"
proof
  assume "parse_id s = Inr (t, v)"
  then obtain n where "split_on CHR '':'' s = [t, n]" "py_int n = Some v"
    by (auto simp: parse_id_def split: list.splits option.splits)
  then show "\<exists>n. s = t @ CHR '':'' # n \<and> CHR '':'' \<notin> set t \<and> CHR '':'' \<notin> set n \<and> py_int n = Some v"
    by (auto simp: split_on_pair)
next
  assume "\<exists>n. s = t @ CHR '':'' # n \<and> CHR '':'' \<notin> set t \<and> CHR '':'' \<notin> set n \<and> py_int n = Some v"
  then obtain n where "split_on CHR '':'' s = [t, n]" "py_int n = Some v"
    using split_on_pair [of "CHR '':''" s t] by blast
  then show "parse_id s = Inr (t, v)" by (simp add: parse_id_def)
qed

lemma parse_id_error: "parse_id s = Inl e \<Longrightarrow> e = ValueError"
  by (auto simp: parse_id_def split: list.splits option.splits)

lemma add_scores_ok:
  "Listed [] \<notin> set rs \<Longrightarrow> \<exists>grouped'. add_scores key nc i rs grouped = Inr grouped'"
proof (induction rs arbitrary: i grouped)
  case Nil
  then show ?case by simp
next
  case (Cons r rs)
  then obtain x where "unwrap_score r = Inr x"
    by (cases r rule: unwrap_score.cases) auto
  with Cons show ?case by simp
qed

lemma group_samples_append:
  "group_samples (xs @ ys) grouped =
   (case group_samples xs grouped of Inl e \<Rightarrow> Inl e | Inr grouped' \<Rightarrow> group_samples ys grouped')"
  by (induction xs arbitrary: grouped) (auto split: sum.splits)

lemma group_samples_no_IndexError:
  "\<forall>r\<in>set xs. Listed [] \<notin> set (scores r) \<Longrightarrow>
   group_samples xs grouped = Inl ValueError \<or> (\<exists>grouped'. group_samples xs grouped = Inr grouped')"
proof (induction xs arbitrary: grouped)
  case Nil
  then show ?case by simp
next
  case (Cons s xs)
  show ?case
  proof (cases "parse_id (sample_id s)")
    case (Inl e)
    then show ?thesis using parse_id_error [OF Inl] by simp
  next
    case (Inr key)
    from Cons.prems have "Listed [] \<notin> set (scores s)" by simp
    from add_scores_ok [OF this] obtain g' where
      "add_scores key (num_correct s) 0 (scores s) grouped = Inr g'" by blast
    with Inr Cons.IH [of g'] Cons.prems show ?thesis by simp
  qed
qed

text \<open>
  C7 (as amended). When the id of some row does not have the form \<open>t:n\<close>, with one colon
  and \<open>n\<close> accepted by \<^verbatim>\<open>int\<close>, \<^verbatim>\<open>process_single_model\<close> raises and returns
  nothing. The exception is the builtin ValueError whenever no earlier row holds an
  empty list among its scores (which raises IndexError first).
\<close>

theorem malformed_id_raises_ValueError:
  assumes "rows dataset = before @ s # after"
    and "\<not> (\<exists>t n v. sample_id s = t @ '':'' @ n \<and> CHR '':'' \<notin> set t \<and> CHR '':'' \<notin> set n \<and>
                   py_int n = Some v)"
  shows "(\<exists>e. process_single_model dataset = Inl e) \<and>
         ((\<forall>r\<in>set before. Listed [] \<notin> set (scores r)) \<longrightarrow>
            process_single_model dataset = Inl ValueError)"
proof -
  have "\<not> (\<exists>key. parse_id (sample_id s) = Inr key)"
  proof
    assume "\<exists>key. parse_id (sample_id s) = Inr key"
    then obtain t v where "parse_id (sample_id s) = Inr (t, v)" by auto
    then obtain n where "sample_id s = t @ '':'' @ n" "CHR '':'' \<notin> set t"
      "CHR '':'' \<notin> set n" "py_int n = Some v"
      unfolding parse_id_Inr by auto
    with assms(2) show False by blast
  qed
  then obtain e where "parse_id (sample_id s) = Inl e"
    by (cases "parse_id (sample_id s)") auto
  then have s: "group_samples (s # after) grouped = Inl ValueError" for grouped
    using parse_id_error by auto
  have 1: "\<exists>e. group_samples (rows dataset) [] = Inl e"
    unfolding assms(1) group_samples_append using s by (auto split: sum.splits)
  have 2: "group_samples (rows dataset) [] = Inl ValueError"
    if "\<forall>r\<in>set before. Listed [] \<notin> set (scores r)"
    unfolding assms(1) group_samples_append
    using s group_samples_no_IndexError [OF that, of "[]"] by (auto split: sum.splits)
  from 1 2 show ?thesis
    by (auto simp: process_single_model_def ties_score_def ties_stats_def)
qed

text \<open>
  The exception of the malformed id \<^verbatim>\<open>"badid"\<close> is the ValueError of the failed
  unpacking; the source has no exception class for malformed ids.
\<close>

theorem malformed_id_counterexample:
  "process_single_model
     \<lparr>column_names = [''id'', ''num_correct'', ''scores''],
      rows = [\<lparr>sample_id = ''badid'', num_correct = 1, scores = [Scalar 5, Scalar 2],
               other = Map.empty\<rparr>]\<rparr> = Inl ValueError"
  by (simp add: ties_eval parse_id_eval)

theorem malformed_id_raises_ValueError_witness:
  "\<not> (\<exists>t n v. ''badid'' = t @ '':'' @ n \<and> CHR '':'' \<notin> set t \<and> CHR '':'' \<notin> set n \<and>
                py_int n = Some v) \<and>
   Listed [] \<notin> set [Scalar 5, Scalar 2] \<and>
   process_single_model
     \<lparr>column_names = [''id'', ''num_correct'', ''scores''],
      rows = [\<lparr>sample_id = ''ref:0'', num_correct = 1, scores = [Scalar 5, Scalar 2],
               other = Map.empty\<rparr>] @
             \<lparr>sample_id = ''badid'', num_correct = 1, scores = [Scalar 5, Scalar 2],
               other = Map.empty\<rparr> # []\<rparr> = Inl ValueError"
proof -
  let ?b = "[\<lparr>sample_id = ''ref:0'', num_correct = 1, scores = [Scalar 5, Scalar 2],
                other = Map.empty\<rparr>]"
  let ?s = "\<lparr>sample_id = ''badid'', num_correct = 1, scores = [Scalar 5, Scalar 2],
               other = Map.empty\<rparr>"
  let ?d = "\<lparr>column_names = [''id'', ''num_correct'', ''scores''], rows = ?b @ ?s # []\<rparr>"
  have "CHR '':'' \<in> set (t @ '':'' @ n)" for t n by simp
  moreover have "CHR '':'' \<notin> set ''badid''" by simp
  ultimately have "''badid'' \<noteq> t @ '':'' @ n" for t n by metis
  then have h: "\<not> (\<exists>t n v. sample_id ?s = t @ '':'' @ n \<and> CHR '':'' \<notin> set t \<and>
                    CHR '':'' \<notin> set n \<and> py_int n = Some v)"
    by simp
  have r: "rows ?d = ?b @ ?s # []" by simp
  have b: "\<forall>r\<in>set ?b. Listed [] \<notin> set (scores r)" by simp
  from malformed_id_raises_ValueError [OF r h] b
  have "process_single_model ?d = Inl ValueError" by blast
  with h b show ?thesis by simp
qed

text \<open>Whitespace that \<^verbatim>\<open>int\<close> strips and whitespace that it does not.\<close>

lemma parse_id_no_break_space:
  "parse_id (''tied:'' @ [CHR 0xA0] @ ''7'') = Inr (''tied'', 7) \<and>
   parse_id (''other:'' @ [CHR 0x85] @ ''7'' @ [CHR 0x0C]) = Inr (''other'', 7)"
  by (simp add: parse_id_eval)

lemma parse_id_separator_rejected:
  "parse_id (''tied:'' @ [CHR 0x1C] @ ''7'') = Inl ValueError \<and>
   parse_id (''other:'' @ [CHR 0x1F] @ ''7'') = Inl ValueError"
  by (simp add: parse_id_eval)

section \<open>The returned dataset\<close>

lemma rows_add_column_None:
  "rows (add_column name (replicate (length (rows d)) v) d) =
   map (\<lambda>r. r\<lparr>other := (other r)(name \<mapsto> v)\<rparr>) (rows d)"
  by (simp add: add_column_def zip_replicate2 o_def)

lemma rows_package_results:
  "rows (package_results d) =
   map (\<lambda>r. r\<lparr>other := (other r)(''results'' \<mapsto> CNone)\<rparr>) (rows d)"
proof (cases "''results'' \<in> set (column_names d)")
  case True
  have "length (rows (remove_columns ''results'' d)) = length (rows d)"
    by (simp add: remove_columns_def)
  then have "rows (package_results d) =
      map (\<lambda>r. r\<lparr>other := (other r)(''results'' \<mapsto> CNone)\<rparr>) (rows (remove_columns ''results'' d))"
    using True rows_add_column_None [of "''results''" "remove_columns ''results'' d" CNone]
    by (simp add: package_results_def Let_def)
  then show ?thesis by (simp add: remove_columns_def o_def)
next
  case False
  then show ?thesis
    using rows_add_column_None [of "''results''" d CNone]
    by (simp add: package_results_def Let_def)
qed

lemma column_names_package_results:
  "column_names (package_results d) = filter (\<lambda>c. c \<noteq> ''results'') (column_names d) @ [''results'']"
proof (cases "''results'' \<in> set (column_names d)")
  case True
  then show ?thesis by (simp add: package_results_def Let_def add_column_def remove_columns_def)
next
  case False
  then have "filter (\<lambda>c. c \<noteq> ''results'') (column_names d) = column_names d"
    by (auto simp: filter_id_conv)
  with False show ?thesis by (simp add: package_results_def Let_def add_column_def)
qed

text \<open>
  C9. In the dataset that \<^verbatim>\<open>process_single_model\<close> returns, every row has
  \<^verbatim>\<open>None\<close> in the column \<open>results\<close>, and every other column of every row is as
  in the input; the rows are as many and in the same order, and the column names are
  those of the input and \<open>results\<close>.
\<close>

theorem results_column_overwritten:
  assumes "process_single_model dataset = Inr (results_dataset, overall_score)"
  shows "length (rows results_dataset) = length (rows dataset) \<and>
         (\<forall>i < length (rows dataset).
            other (rows results_dataset ! i) ''results'' = Some CNone \<and>
            (\<forall>c. c \<noteq> ''results'' \<longrightarrow>
                 other (rows results_dataset ! i) c = other (rows dataset ! i) c) \<and>
            sample_id (rows results_dataset ! i) = sample_id (rows dataset ! i) \<and>
            num_correct (rows results_dataset ! i) = num_correct (rows dataset ! i) \<and>
            scores (rows results_dataset ! i) = scores (rows dataset ! i)) \<and>
         set (column_names results_dataset) = insert ''results'' (set (column_names dataset))"
proof -
  from assms have "results_dataset = package_results dataset"
    by (auto simp: process_single_model_def split: sum.splits)
  then show ?thesis
    by (auto simp: rows_package_results column_names_package_results)
qed

lemma example_dataset_score:
  "process_single_model example_dataset = Inr (package_results example_dataset, Fin (1 + tanh 1 / 100))"
  by (simp add: example_dataset_def ties_eval parse_id_eval)

theorem results_column_overwritten_witness:
  "process_single_model example_dataset =
     Inr (package_results example_dataset, Fin (1 + tanh 1 / 100)) \<and>
   map (\<lambda>r. other r ''results'') (rows (package_results example_dataset)) = [Some CNone, Some CNone] \<and>
   map (\<lambda>r. other r ''model'') (rows (package_results example_dataset)) =
     [Some (CStr ''rm''), Some (CStr ''rm'')] \<and>
   map sample_id (rows (package_results example_dataset)) = [''ref:0'', ''tied:0'']"
proof -
  have l: "length (rows example_dataset) = 2" by (simp add: example_dataset_def)
  have m: "map f xs = [f (xs ! 0), f (xs ! 1)]" if "length xs = 2" for f :: "sample \<Rightarrow> 'b" and xs
    using that by (cases xs; cases "tl xs") auto
  from results_column_overwritten [OF example_dataset_score] l
  have len: "length (rows (package_results example_dataset)) = 2"
    and r: "\<forall>i<2. other (rows (package_results example_dataset) ! i) ''results'' = Some CNone \<and>
            (\<forall>c. c \<noteq> ''results'' \<longrightarrow>
                 other (rows (package_results example_dataset) ! i) c = other (rows example_dataset ! i) c) \<and>
            sample_id (rows (package_results example_dataset) ! i) = sample_id (rows example_dataset ! i)"
    by auto
  have 0: "(0::nat) < 2" and 1: "(1::nat) < 2" by simp_all
  from r 0 1 have
    "other (rows (package_results example_dataset) ! 0) ''results'' = Some CNone"
    "other (rows (package_results example_dataset) ! 1) ''results'' = Some CNone"
    "other (rows (package_results example_dataset) ! 0) ''model'' = other (rows example_dataset ! 0) ''model''"
    "other (rows (package_results example_dataset) ! 1) ''model'' = other (rows example_dataset ! 1) ''model''"
    "sample_id (rows (package_results example_dataset) ! 0) = sample_id (rows example_dataset ! 0)"
    "sample_id (rows (package_results example_dataset) ! 1) = sample_id (rows example_dataset ! 1)"
    by simp_all
  then show ?thesis
    using example_dataset_score by (simp add: m [OF len]) (simp add: example_dataset_def)
qed

section \<open>Degenerate numeric cases\<close>

text \<open>
  With a zero spread of the correct scores, the quotient is NaN only for a zero
  numerator; a nonzero numerator gives an infinity, which \<^verbatim>\<open>np.tanh\<close> maps to
  \<open>1\<close> or \<open>-1\<close> before \<^verbatim>\<open>np.nan_to_num\<close> is applied.
\<close>

lemma margin_score_zero_divisor:
  "margin_score r t 0 = (if min r t = 0 then 0 else if 0 < min r t then 1 else - 1)"
  by (simp add: margin_score_def np_divide_def)

text \<open>
  C2 (the code at the failing input). For the reference prompt \<^verbatim>\<open>ref:0\<close> with scores
  \<open>[5, 2, 1]\<close> and the tied prompt \<^verbatim>\<open>tied:0\<close> with two correct scores \<open>5, 5\<close> and
  incorrect scores \<open>2, 1\<close>, the spread of the correct scores is \<open>0\<close>, both margins are
  \<open>3\<close>, and the margin score of the prompt is \<open>1\<close>, not \<open>0\<close>: the overall score is
  \<open>1.01\<close>.
\<close>

theorem zero_spread_margin_score:
  "ties_stats zero_spread_rows = Inr ([(0, (True, None, 3))], [(0, (True, Some 0, 3))]) \<and>
   margin_score 3 3 0 = 1 \<and>
   ties_metrics [(0, (True, None, 3))] [(0, (True, Some 0, 3))] [0] =
     Inr (Fin 1, Fin 1, Fin 1, Fin 1, Fin 1) \<and>
   ties_score zero_spread_rows = Inr (Fin (101 / 100))"
  by (simp add: zero_spread_rows_def margin_score_def ties_eval parse_id_eval)

text \<open>
  C3 (the code at the failing input). For a reference prompt \<^verbatim>\<open>ref:0\<close> and a tied
  prompt \<^verbatim>\<open>tied:1\<close>, no prompt id is common; the two accuracies are \<open>1\<close>, the three
  means over the common prompts are NaN, and so is the overall score.
\<close>

theorem no_common_prompts_nan:
  "ties_stats disjoint_rows = Inr ([(0, (True, None, 3))], [(1, (True, Some 1, 2))]) \<and>
   common_prompts [(0, (True, None, 3))] [(1, (True, Some 1, 2))] = [] \<and>
   ties_metrics [(0, (True, None, 3))] [(1, (True, Some 1, 2))] [] =
     Inr (Fin 1, Fin 1, NaN, NaN, NaN) \<and>
   ties_score disjoint_rows = Inr NaN"
  by (simp add: disjoint_rows_def ties_eval parse_id_eval)

section \<open>The metrics and the overall score\<close>

lemma dict_get_all_eq:
  "dict_get_all d ks =
   (if set ks \<subseteq> dom (map_of d) then Inr (map (\<lambda>k. the (map_of d k)) ks) else Inl KeyError)"
  by (induction ks) (auto simp: dict_get_def split: option.splits)

lemma as_float_array_eq:
  "as_float_array xs = (if None \<in> set xs then Inl TypeError else Inr (map the xs))"
  by (induction xs rule: as_float_array.induct) auto

text \<open>The metrics, prompt by prompt.\<close>

lemma ties_metrics_eq:
  "ties_metrics rs ts ps =
   (if \<not> set ps \<subseteq> dom (map_of ts) \<or> \<not> set ps \<subseteq> dom (map_of rs) then Inl KeyError
    else if \<exists>p\<in>set ps. fst (snd (the (map_of ts p))) = None then Inl TypeError
    else Inr (accuracy ts, accuracy rs,
      np_mean (map (\<lambda>p. of_bool (snd (snd (the (map_of ts p))) > the (fst (snd (the (map_of ts p)))))) ps),
      np_mean (map (\<lambda>p. of_bool (min (snd (snd (the (map_of rs p)))) (snd (snd (the (map_of ts p))))
                                > the (fst (snd (the (map_of ts p)))))) ps),
      np_mean (map (\<lambda>p. margin_score (snd (snd (the (map_of rs p)))) (snd (snd (the (map_of ts p))))
                                (the (fst (snd (the (map_of ts p)))))) ps)))"
proof -
  have z: "zip (map f ps) (map g ps) = map (\<lambda>p. (f p, g p)) ps" for f :: "int \<Rightarrow> real" and g :: "int \<Rightarrow> real"
    by (induction ps) auto
  show ?thesis
    by (simp add: ties_metrics_def dict_get_all_eq as_float_array_eq Let_def z o_def
        margin_score_def image_iff Bex_def) (metis option.distinct(1))
qed

lemma sum_list_bounds:
  fixes xs :: "real list"
  assumes "\<forall>x\<in>set xs. lo \<le> x \<and> x \<le> hi"
  shows "lo * real (length xs) \<le> sum_list xs \<and> sum_list xs \<le> hi * real (length xs)"
  using assms by (induction xs) (auto simp: algebra_simps)

lemma np_mean_bounds:
  assumes "xs \<noteq> []" and "\<forall>x\<in>set xs. lo \<le> x \<and> x \<le> hi"
  shows "\<exists>m. np_mean xs = Fin m \<and> lo \<le> m \<and> m \<le> hi"
proof -
  from assms(1) have n: "0 < real (length xs)" by simp
  from sum_list_bounds [OF assms(2)] n
  have "lo \<le> sum_list xs / real (length xs)" "sum_list xs / real (length xs) \<le> hi"
    by (simp_all add: pos_le_divide_eq pos_divide_le_eq)
  with assms(1) show ?thesis by (simp add: np_mean_def)
qed

lemma margin_score_bounds: "- 1 \<le> margin_score r t d \<and> margin_score r t d \<le> 1"
proof (cases "d = 0")
  case True
  then show ?thesis by (simp add: margin_score_def np_divide_def)
next
  case False
  then show ?thesis
    using tanh_real_lt_1 [of "min r t / d - 1"] tanh_real_gt_neg1 [of "min r t / d - 1"]
    by (simp add: margin_score_def np_divide_def)
qed

lemma np_mean_of_bool:
  assumes "xs \<noteq> []"
  shows "\<exists>m. np_mean (map (\<lambda>x. of_bool (P x)) xs) = Fin m \<and> 0 \<le> m \<and> m \<le> 1"
proof -
  from assms have "map (\<lambda>x. of_bool (P x) :: real) xs \<noteq> []" by simp
  moreover have "\<forall>y\<in>set (map (\<lambda>x. of_bool (P x) :: real) xs). 0 \<le> y \<and> y \<le> 1" by auto
  ultimately show ?thesis by (rule np_mean_bounds)
qed

lemma np_mean_margin_score:
  assumes "xs \<noteq> []"
  shows "\<exists>m. np_mean (map (\<lambda>x. margin_score (f x) (g x) (h x)) xs) = Fin m \<and> - 1 \<le> m \<and> m \<le> 1"
proof -
  from assms have "map (\<lambda>x. margin_score (f x) (g x) (h x)) xs \<noteq> []" by simp
  moreover have "\<forall>y\<in>set (map (\<lambda>x. margin_score (f x) (g x) (h x)) xs). - 1 \<le> y \<and> y \<le> 1"
    using margin_score_bounds by auto
  ultimately show ?thesis by (rule np_mean_bounds)
qed

lemma accuracy_bounds: "\<exists>a. accuracy stats = Fin a \<and> 0 \<le> a \<and> a \<le> 1"
proof (cases "stats = []")
  case True
  then show ?thesis by (simp add: accuracy_def)
next
  case False
  have "(\<lambda>(pid, s). of_bool (fst s) :: real) = (\<lambda>x :: int \<times> prompt_stats. of_bool (fst (snd x)))"
    by (simp add: fun_eq_iff)
  with np_mean_of_bool [OF False, of "\<lambda>x. fst (snd x)"] False show ?thesis
    by (simp add: accuracy_def)
qed

lemma tanh_minus_4: "tanh (- 4 :: real) < - (1 / 2)"
proof -
  have "1 + 8 \<le> exp (8 :: real)" by (rule exp_ge_add_one_self)
  then have e: "3 < exp (8 :: real)" by simp
  have "tanh (- 4 :: real) = (1 - exp 8) / (1 + exp 8)"
    using tanh_real_altdef [of "- 4"] by simp
  also have "\<dots> < - (1 / 2)"
    using e by (simp add: field_simps add_pos_pos)
  finally show ?thesis .
qed

text \<open>
  C4 (as amended). Whenever \<^verbatim>\<open>process_single_model\<close> returns, its overall score is
  \<open>0.30 * tied_accuracy + 0.30 * ref_accuracy + 0.20 * correctness_preferred +
  0.20 * correctness_preferred_hard + 0.01 * correctness_margin_score\<close>; and when at
  least one prompt id is common to the reference and the tied prompts, the five
  metrics are finite and the overall score lies between \<open>-0.01\<close> and \<open>1.01\<close>.
\<close>

theorem overall_score_weighted_bounded:
  assumes "process_single_model dataset = Inr (results_dataset, overall_score)"
  shows "\<exists>rs ts ta ra cp cph cms.
           ties_stats (rows dataset) = Inr (rs, ts) \<and>
           ties_metrics rs ts (common_prompts rs ts) = Inr (ta, ra, cp, cph, cms) \<and>
           overall_score =
             np_add (np_add (np_add (np_add
               (np_scale (30 / 100) ta) (np_scale (30 / 100) ra))
               (np_scale (20 / 100) cp)) (np_scale (20 / 100) cph)) (np_scale (1 / 100) cms) \<and>
           (common_prompts rs ts \<noteq> [] \<longrightarrow>
              (\<exists>a b c d m.
                 ta = Fin a \<and> ra = Fin b \<and> cp = Fin c \<and> cph = Fin d \<and> cms = Fin m \<and>
                 overall_score =
                   Fin (30 / 100 * a + 30 / 100 * b + 20 / 100 * c + 20 / 100 * d + 1 / 100 * m) \<and>
                 - (1 / 100) \<le> 30 / 100 * a + 30 / 100 * b + 20 / 100 * c + 20 / 100 * d + 1 / 100 * m \<and>
                 30 / 100 * a + 30 / 100 * b + 20 / 100 * c + 20 / 100 * d + 1 / 100 * m \<le> 101 / 100))"
proof -
  from assms obtain rs ts m where
    st: "ties_stats (rows dataset) = Inr (rs, ts)" and
    m: "ties_metrics rs ts (common_prompts rs ts) = Inr m" and
    o: "overall_score = weighted_sum m"
    by (auto simp: process_single_model_def ties_score_def split: sum.splits)
  obtain ta ra cp cph cms where mm: "m = (ta, ra, cp, cph, cms)" by (metis prod_cases5)
  let ?ps = "common_prompts rs ts"
  have bounded: "\<exists>a b c d x.
         ta = Fin a \<and> ra = Fin b \<and> cp = Fin c \<and> cph = Fin d \<and> cms = Fin x \<and>
         0 \<le> a \<and> a \<le> 1 \<and> 0 \<le> b \<and> b \<le> 1 \<and> 0 \<le> c \<and> c \<le> 1 \<and> 0 \<le> d \<and> d \<le> 1 \<and>
         - 1 \<le> x \<and> x \<le> 1"
    if ne: "?ps \<noteq> []"
  proof -
    from m have eq: "ta = accuracy ts" "ra = accuracy rs"
      "cp = np_mean (map (\<lambda>p. of_bool (snd (snd (the (map_of ts p))) > the (fst (snd (the (map_of ts p)))))) ?ps)"
      "cph = np_mean (map (\<lambda>p. of_bool (min (snd (snd (the (map_of rs p)))) (snd (snd (the (map_of ts p))))
                                > the (fst (snd (the (map_of ts p)))))) ?ps)"
      "cms = np_mean (map (\<lambda>p. margin_score (snd (snd (the (map_of rs p)))) (snd (snd (the (map_of ts p))))
                                (the (fst (snd (the (map_of ts p)))))) ?ps)"
      unfolding mm ties_metrics_eq by (simp_all split: if_splits)
    obtain a where a: "ta = Fin a" "0 \<le> a" "a \<le> 1" using accuracy_bounds [of ts] eq(1) by auto
    obtain b where b: "ra = Fin b" "0 \<le> b" "b \<le> 1" using accuracy_bounds [of rs] eq(2) by auto
    have "\<exists>c. cp = Fin c \<and> 0 \<le> c \<and> c \<le> 1"
      unfolding eq(3) by (rule np_mean_of_bool [OF ne])
    then obtain c where c: "cp = Fin c" "0 \<le> c" "c \<le> 1" by blast
    have "\<exists>d. cph = Fin d \<and> 0 \<le> d \<and> d \<le> 1"
      unfolding eq(4) by (rule np_mean_of_bool [OF ne])
    then obtain d where d: "cph = Fin d" "0 \<le> d" "d \<le> 1" by blast
    have "\<exists>x. cms = Fin x \<and> - 1 \<le> x \<and> x \<le> 1"
      unfolding eq(5) by (rule np_mean_margin_score [OF ne])
    then obtain x where x: "cms = Fin x" "- 1 \<le> x" "x \<le> 1" by blast
    from a b c d x show ?thesis by blast
  qed
  have "common_prompts rs ts \<noteq> [] \<longrightarrow>
              (\<exists>a b c d m.
                 ta = Fin a \<and> ra = Fin b \<and> cp = Fin c \<and> cph = Fin d \<and> cms = Fin m \<and>
                 overall_score =
                   Fin (30 / 100 * a + 30 / 100 * b + 20 / 100 * c + 20 / 100 * d + 1 / 100 * m) \<and>
                 - (1 / 100) \<le> 30 / 100 * a + 30 / 100 * b + 20 / 100 * c + 20 / 100 * d + 1 / 100 * m \<and>
                 30 / 100 * a + 30 / 100 * b + 20 / 100 * c + 20 / 100 * d + 1 / 100 * m \<le> 101 / 100)"
  proof
    assume "common_prompts rs ts \<noteq> []"
    from bounded [OF this] obtain a b c d x where
      v: "ta = Fin a" "ra = Fin b" "cp = Fin c" "cph = Fin d" "cms = Fin x" and
      r: "0 \<le> a" "a \<le> 1" "0 \<le> b" "b \<le> 1" "0 \<le> c" "c \<le> 1" "0 \<le> d" "d \<le> 1" "- 1 \<le> x" "x \<le> 1"
      by blast
    have "overall_score = Fin (30 / 100 * a + 30 / 100 * b + 20 / 100 * c + 20 / 100 * d + 1 / 100 * x)"
      by (simp add: o mm v weighted_sum_def)
    moreover from r have
      "- (1 / 100) \<le> 30 / 100 * a + 30 / 100 * b + 20 / 100 * c + 20 / 100 * d + 1 / 100 * x"
      "30 / 100 * a + 30 / 100 * b + 20 / 100 * c + 20 / 100 * d + 1 / 100 * x \<le> 101 / 100"
      by linarith+
    ultimately show "\<exists>a b c d m.
                 ta = Fin a \<and> ra = Fin b \<and> cp = Fin c \<and> cph = Fin d \<and> cms = Fin m \<and>
                 overall_score =
                   Fin (30 / 100 * a + 30 / 100 * b + 20 / 100 * c + 20 / 100 * d + 1 / 100 * m) \<and>
                 - (1 / 100) \<le> 30 / 100 * a + 30 / 100 * b + 20 / 100 * c + 20 / 100 * d + 1 / 100 * m \<and>
                 30 / 100 * a + 30 / 100 * b + 20 / 100 * c + 20 / 100 * d + 1 / 100 * m \<le> 101 / 100"
      using v by blast
  qed
  moreover have "overall_score =
             np_add (np_add (np_add (np_add
               (np_scale (30 / 100) ta) (np_scale (30 / 100) ra))
               (np_scale (20 / 100) cp)) (np_scale (20 / 100) cph)) (np_scale (1 / 100) cms)"
    by (simp add: o mm weighted_sum_def)
  ultimately show ?thesis using st m mm by blast
qed

text \<open>
  The lower bound \<open>-0.01 * 0.5\<close> does not hold: on two well-formed groups with margins
  \<open>-3\<close> and a spread of \<open>1\<close>, the four rates are \<open>0\<close> and the overall score is
  \<open>0.01 * tanh (-4)\<close>, below \<open>-0.005\<close>.
\<close>

theorem overall_score_below_lower_bound:
  "process_single_model low_dataset = Inr (package_results low_dataset, Fin (tanh (- 4) / 100)) \<and>
   compute_prompt_stats [(True, 1), (False, 4)] = Inr (False, None, - 3) \<and>
   compute_prompt_stats [(True, 2), (True, 1), (False, 4)] = Inr (False, Some 1, - 3) \<and>
   tanh (- 4 :: real) / 100 < - (1 / 100) * (5 / 10)"
proof -
  have "process_single_model low_dataset = Inr (package_results low_dataset, Fin (tanh (- 4) / 100))"
    by (simp add: low_dataset_def ties_eval parse_id_eval)
  moreover have "compute_prompt_stats [(True, 1), (False, 4)] = Inr (False, None, - 3)"
    "compute_prompt_stats [(True, 2), (True, 1), (False, 4)] = Inr (False, Some 1, - 3)"
    by (simp_all add: ties_eval)
  moreover have "tanh (- 4 :: real) / 100 < - (1 / 100) * (5 / 10)"
    using tanh_minus_4 by simp
  ultimately show ?thesis by blast
qed


theorem overall_score_weighted_bounded_witness:
  "process_single_model example_dataset =
     Inr (package_results example_dataset, Fin (1 + tanh 1 / 100)) \<and>
   ties_stats (rows example_dataset) = Inr ([(0, (True, None, 3))], [(0, (True, Some 1, 2))]) \<and>
   common_prompts [(0, (True, None, 3))] [(0, (True, Some 1, 2))] \<noteq> [] \<and>
   - (1 / 100) \<le> 1 + tanh (1 :: real) / 100 \<and> 1 + tanh (1 :: real) / 100 \<le> 101 / 100"
proof -
  have s: "ties_stats (rows example_dataset) = Inr ([(0, (True, None, 3))], [(0, (True, Some 1, 2))])"
    by (simp add: example_dataset_def ties_eval parse_id_eval)
  have c: "common_prompts [(0, (True, None, 3))] [(0, (True, Some 1, 2))] \<noteq> []"
    by (simp add: common_prompts_def)
  from overall_score_weighted_bounded [OF example_dataset_score] s c
  obtain x :: real where "Fin (1 + tanh 1 / 100) = Fin x" "- (1 / 100) \<le> x" "x \<le> 101 / 100"
    by auto
  then have "- (1 / 100) \<le> 1 + tanh (1 :: real) / 100" "1 + tanh (1 :: real) / 100 \<le> 101 / 100"
    by simp_all
  with example_dataset_score s c show ?thesis by blast
qed

section \<open>Independence of the order of the rows\<close>

subsection \<open>Appending to a group\<close>

lemma keys_dict_append:
  "map fst (dict_append k v d) = (if k \<in> fst ` set d then map fst d else map fst d @ [k])"
proof (induction d)
  case Nil
  then show ?case by simp
next
  case (Cons x d)
  obtain k' vs where x: "x = (k', vs)" by (cases x)
  show ?case
  proof (cases "k' = k")
    case True
    then show ?thesis by (simp add: x)
  next
    case False
    then show ?thesis using Cons by (simp add: x)
  qed
qed

lemma items_dict_append:
  "mset (dict_items (dict_append k v d)) = add_mset (k, v) (mset (dict_items d))"
  by (induction d) (auto simp: dict_items_def)

lemma nonempty_dict_append:
  "[] \<notin> snd ` set d \<Longrightarrow> [] \<notin> snd ` set (dict_append k v d)"
proof (induction d)
  case Nil
  then show ?case by simp
next
  case (Cons x d)
  obtain k' vs where x: "x = (k', vs)" by (cases x)
  from Cons.prems have "[] \<notin> snd ` set d" "vs \<noteq> []" by (auto simp: x)
  with Cons.IH show ?case by (simp add: x)
qed

lemma dict_inv_append: "dict_inv d \<Longrightarrow> dict_inv (dict_append k v d)"
  unfolding dict_inv_def using nonempty_dict_append [of d k v]
  by (simp add: keys_dict_append)

lemma dict_inv_fold: "dict_inv d \<Longrightarrow> dict_inv (fold (dict_append k) es d)"
  by (induction es arbitrary: d) (simp_all add: dict_inv_append)

lemma items_fold:
  "mset (dict_items (fold (dict_append k) es d)) = mset (dict_items d) + mset (map (Pair k) es)"
  by (induction es arbitrary: d) (simp_all add: items_dict_append)

subsection \<open>The two loops of the grouping\<close>

lemma add_scores_fold:
  "Listed [] \<notin> set rs \<Longrightarrow>
   add_scores key nc i rs d = Inr (fold (dict_append key) (score_entries nc i rs) d)"
proof (induction rs arbitrary: i d)
  case Nil
  then show ?case by simp
next
  case (Cons r rs)
  then obtain x where "unwrap_score r = Inr x"
    by (cases r rule: unwrap_score.cases) auto
  with Cons show ?case by simp
qed

lemma add_scores_Inr: "add_scores key nc i rs d = Inr d' \<Longrightarrow> Listed [] \<notin> set rs"
proof (induction rs arbitrary: i d)
  case Nil
  then show ?case by simp
next
  case (Cons r rs)
  from Cons.prems obtain x where x: "unwrap_score r = Inr x"
    by (cases "unwrap_score r") auto
  then have "r \<noteq> Listed []" by auto
  moreover from Cons.prems x
  have "add_scores key nc (Suc i) rs (dict_append key (int i < nc, x) d) = Inr d'" by simp
  then have "Listed [] \<notin> set rs" by (rule Cons.IH)
  ultimately show ?case by simp
qed

lemma group_samples_ok:
  assumes "\<forall>r\<in>set ds. row_ok r"
  shows "\<exists>d'. group_samples ds d = Inr d' \<and> (dict_inv d \<longrightarrow> dict_inv d') \<and>
              mset (dict_items d') = mset (dict_items d) + mset (concat (map row_items ds))"
  using assms
proof (induction ds arbitrary: d)
  case Nil
  then show ?case by simp
next
  case (Cons s ds)
  from Cons.prems obtain key where k: "parse_id (sample_id s) = Inr key"
    and l: "Listed [] \<notin> set (scores s)"
    by (auto simp: row_ok_def split: sum.splits)
  let ?d1 = "fold (dict_append key) (score_entries (num_correct s) 0 (scores s)) d"
  from Cons.prems have "\<forall>r\<in>set ds. row_ok r" by simp
  from Cons.IH [OF this, of ?d1] obtain d' where
    d': "group_samples ds ?d1 = Inr d'" "dict_inv ?d1 \<longrightarrow> dict_inv d'"
    "mset (dict_items d') = mset (dict_items ?d1) + mset (concat (map row_items ds))"
    by blast
  have "group_samples (s # ds) d = Inr d'"
    using k add_scores_fold [OF l] d'(1) by simp
  moreover have "dict_inv d \<longrightarrow> dict_inv d'"
  proof
    assume "dict_inv d"
    then have "dict_inv ?d1" by (rule dict_inv_fold)
    with d'(2) show "dict_inv d'" by simp
  qed
  moreover have "mset (dict_items d') = mset (dict_items d) + mset (concat (map row_items (s # ds)))"
  proof -
    have "row_items s = map (Pair key) (score_entries (num_correct s) 0 (scores s))"
      using k by (simp add: row_items_def)
    then have "mset (concat (map row_items (s # ds))) =
        mset (map (Pair key) (score_entries (num_correct s) 0 (scores s))) +
        mset (concat (map row_items ds))"
      by simp
    then show ?thesis
      unfolding d'(3) items_fold by (simp only: add.assoc)
  qed
  ultimately show ?case by (intro exI conjI)
qed

lemma group_samples_Inr: "group_samples ds d = Inr d' \<Longrightarrow> \<forall>r\<in>set ds. row_ok r"
proof (induction ds arbitrary: d)
  case Nil
  then show ?case by simp
next
  case (Cons s ds)
  from Cons.prems obtain key where k: "parse_id (sample_id s) = Inr key"
    by (cases "parse_id (sample_id s)") auto
  from Cons.prems k obtain d1 where
    a: "add_scores key (num_correct s) 0 (scores s) d = Inr d1"
    by (cases "add_scores key (num_correct s) 0 (scores s) d") auto
  from Cons.prems k a have "group_samples ds d1 = Inr d'" by simp
  then have "\<forall>r\<in>set ds. row_ok r" by (rule Cons.IH)
  moreover have "row_ok s" using k add_scores_Inr [OF a] by (simp add: row_ok_def)
  ultimately show ?case by simp
qed

lemma mset_concat_map:
  "mset xs = mset ys \<Longrightarrow> mset (concat (map f xs)) = mset (concat (map f ys))"
proof -
  have "mset (concat (map f zs)) = (\<Sum>z\<in>#mset zs. mset (f z))" for zs
    by (induction zs) auto
  then show "mset xs = mset ys \<Longrightarrow> mset (concat (map f xs)) = mset (concat (map f ys))"
    by simp
qed

subsection \<open>A group is determined by the items\<close>

lemma dict_items_Cons: "dict_items ((k, vs) # d) = map (Pair k) vs @ dict_items d"
  by (simp add: dict_items_def)

lemma filter_pairs:
  "filter (\<lambda>x. fst x = k) (map (Pair k') vs) = (if k' = k then map (Pair k') vs else [])"
  by (induction vs) auto

lemma items_no_key:
  "k \<notin> fst ` set d \<Longrightarrow> filter (\<lambda>x. fst x = k) (dict_items d) = []"
proof (induction d)
  case Nil
  then show ?case by (simp add: dict_items_def)
next
  case (Cons x d)
  obtain k' vs where x: "x = (k', vs)" by (cases x)
  from Cons.prems have "k' \<noteq> k" "k \<notin> fst ` set d" by (auto simp: x)
  with Cons.IH show ?case by (simp add: x dict_items_Cons filter_pairs)
qed

lemma group_from_items:
  assumes "distinct (map fst d)" and "(k, vs) \<in> set d"
  shows "map snd (filter (\<lambda>x. fst x = k) (dict_items d)) = vs"
  using assms
proof (induction d)
  case Nil
  then show ?case by simp
next
  case (Cons x d)
  obtain k' vs' where x: "x = (k', vs')" by (cases x)
  show ?case
  proof (cases "k' = k")
    case True
    with Cons.prems have "k \<notin> fst ` set d" and "vs' = vs"
      by (auto simp: x image_iff)
    then show ?thesis
      using items_no_key [of k d] True
      by (simp add: x dict_items_Cons filter_pairs o_def)
  next
    case False
    with Cons.prems have "(k, vs) \<in> set d" "distinct (map fst d)" by (auto simp: x)
    from Cons.IH [OF this(2) this(1)] False show ?thesis
      by (simp add: x dict_items_Cons filter_pairs)
  qed
qed

lemma keys_from_items: "[] \<notin> snd ` set d \<Longrightarrow> fst ` set d = fst ` set (dict_items d)"
proof (induction d)
  case Nil
  then show ?case by (simp add: dict_items_def)
next
  case (Cons x d)
  obtain k vs where x: "x = (k, vs)" by (cases x)
  from Cons.prems have "vs \<noteq> []" "[] \<notin> snd ` set d" by (auto simp: x image_iff)
  then have "fst ` set (map (Pair k) vs) = {k}" by (cases vs) auto
  then have "fst ` set (dict_items (x # d)) = insert k (fst ` set (dict_items d))"
    by (simp add: x dict_items_Cons image_Un del: set_map)
  with Cons.IH [OF \<open>[] \<notin> snd ` set d\<close>] show ?case by (simp add: x)
qed

lemma same_items_same_groups:
  assumes "dict_inv d" and "dict_inv d'" and "mset (dict_items d) = mset (dict_items d')"
    and "(k, vs) \<in> set d"
  shows "\<exists>vs'. (k, vs') \<in> set d' \<and> mset vs' = mset vs"
proof -
  from assms(3) have "set (dict_items d) = set (dict_items d')" by (rule mset_eq_setD)
  with assms(1,2) have "fst ` set d = fst ` set d'"
    by (simp add: dict_inv_def keys_from_items)
  moreover from assms(4) have "k \<in> fst ` set d" by (force simp: image_iff)
  ultimately have "k \<in> fst ` set d'" by simp
  then obtain vs' where v: "(k, vs') \<in> set d'" by (auto simp: image_iff)
  have "mset (map snd (filter (\<lambda>x. fst x = k) (dict_items d))) =
        mset (map snd (filter (\<lambda>x. fst x = k) (dict_items d')))"
    using assms(3) by (simp only: mset_map mset_filter)
  moreover have "map snd (filter (\<lambda>x. fst x = k) (dict_items d)) = vs"
    using assms(1,4) by (simp add: dict_inv_def group_from_items)
  moreover have "map snd (filter (\<lambda>x. fst x = k) (dict_items d')) = vs'"
    using assms(2) v by (simp add: dict_inv_def group_from_items)
  ultimately show ?thesis using v by auto
qed

subsection \<open>The statistics of a group do not depend on its order\<close>

lemma compute_prompt_stats_mset:
  assumes "mset vs = mset vs'"
  shows "compute_prompt_stats vs = compute_prompt_stats vs'"
proof -
  have c: "mset (correct_scores vs) = mset (correct_scores vs')"
    using assms by (simp add: correct_scores_def)
  have i: "mset (incorrect_scores vs) = mset (incorrect_scores vs')"
    using assms by (simp add: incorrect_scores_def)
  have cs: "set (correct_scores vs) = set (correct_scores vs')"
    and cl: "length (correct_scores vs) = length (correct_scores vs')"
    using c by (rule mset_eq_setD, rule mset_eq_length)
  have si: "set (incorrect_scores vs) = set (incorrect_scores vs')"
    using i by (rule mset_eq_setD)
  have ce: "correct_scores vs = [] \<longleftrightarrow> correct_scores vs' = []"
    using cl by auto
  have ie: "incorrect_scores vs = [] \<longleftrightarrow> incorrect_scores vs' = []"
    using si by (metis set_empty)
  show ?thesis
  proof (cases "correct_scores vs = [] \<or> incorrect_scores vs = []")
    case True
    then show ?thesis
      using ce ie compute_prompt_stats_fails [of vs] compute_prompt_stats_fails [of vs'] by auto
  next
    case False
    then show ?thesis
      using ce ie compute_prompt_stats_ok [of vs] compute_prompt_stats_ok [of vs']
      by (simp add: cs cl si)
  qed
qed

subsection \<open>Storing into a dictionary\<close>

lemma map_of_dict_set: "map_of (dict_set k v d) = (map_of d)(k \<mapsto> v)"
proof (induction d)
  case Nil
  then show ?case by simp
next
  case (Cons x d)
  obtain k' v' where x: "x = (k', v')" by (cases x)
  show ?case using Cons by (auto simp: x fun_eq_iff)
qed

lemma keys_dict_set:
  "map fst (dict_set k v d) = (if k \<in> fst ` set d then map fst d else map fst d @ [k])"
proof (induction d)
  case Nil
  then show ?case by simp
next
  case (Cons x d)
  obtain k' v' where x: "x = (k', v')" by (cases x)
  show ?case
  proof (cases "k' = k")
    case True
    then show ?thesis by (simp add: x)
  next
    case False
    then show ?thesis using Cons by (simp add: x)
  qed
qed

lemma distinct_dict_set: "distinct (map fst d) \<Longrightarrow> distinct (map fst (dict_set k v d))"
  by (simp add: keys_dict_set)

text \<open>Storing a list of pairs with distinct keys, one after the other, into the empty dictionary.\<close>

lemma distinct_fold_dict_set:
  "distinct (map fst d) \<Longrightarrow> distinct (map fst (fold (\<lambda>(k, v). dict_set k v) kvs d))"
proof (induction kvs arbitrary: d)
  case Nil
  then show ?case by simp
next
  case (Cons x kvs)
  obtain k v where x: "x = (k, v)" by (cases x)
  from Cons.prems have "distinct (map fst (dict_set k v d))" by (rule distinct_dict_set)
  from Cons.IH [OF this] show ?case by (simp add: x)
qed

lemma map_of_fold_dict_set:
  "map_of (fold (\<lambda>(k, v). dict_set k v) kvs d) = map_of d ++ map_of (rev kvs)"
proof (induction kvs arbitrary: d)
  case Nil
  then show ?case by simp
next
  case (Cons x kvs)
  obtain k v where x: "x = (k, v)" by (cases x)
  have "fold (\<lambda>(k, v). dict_set k v) (x # kvs) d =
        fold (\<lambda>(k, v). dict_set k v) kvs (dict_set k v d)"
    by (simp add: x)
  then have "map_of (fold (\<lambda>(k, v). dict_set k v) (x # kvs) d) =
        map_of (dict_set k v d) ++ map_of (rev kvs)"
    by (simp only: Cons.IH)
  also have "\<dots> = (map_of d)(k \<mapsto> v) ++ map_of (rev kvs)"
    by (simp only: map_of_dict_set)
  also have "\<dots> = map_of d ++ map_of (rev (x # kvs))"
    by (simp add: x fun_eq_iff map_add_def split: option.splits)
  finally show ?case .
qed

lemma map_of_rev_distinct: "distinct (map fst xs) \<Longrightarrow> map_of (rev xs) = map_of xs"
proof (induction xs)
  case Nil
  then show ?case by simp
next
  case (Cons x xs)
  obtain k v where x: "x = (k, v)" by (cases x)
  from Cons.prems have k: "k \<notin> fst ` set xs" and d: "distinct (map fst xs)" by (auto simp: x)
  from k have n: "map_of xs k = None" by (simp add: map_of_eq_None_iff)
  have "map_of (rev (x # xs)) = [k \<mapsto> v] ++ map_of xs"
    by (simp add: x Cons.IH [OF d])
  also have "\<dots> = map_of (x # xs)"
    using n by (auto simp: x fun_eq_iff map_add_def split: option.splits)
  finally show ?case .
qed

lemma mset_fold_dict_set:
  assumes "distinct (map fst kvs)"
  shows "mset (fold (\<lambda>(k, v). dict_set k v) kvs []) = mset kvs"
    and "distinct (map fst (fold (\<lambda>(k, v). dict_set k v) kvs []))"
proof -
  let ?d = "fold (\<lambda>(k, v). dict_set k v) kvs []"
  show d: "distinct (map fst ?d)" by (rule distinct_fold_dict_set) simp
  have "map_of ?d = map_of kvs"
    using map_of_fold_dict_set [of kvs "[]"] map_of_rev_distinct [OF assms] by simp
  with d assms have "set ?d = set kvs" by (simp add: map_of_inject_set)
  moreover from d have "distinct ?d" by (rule distinct_map [THEN iffD1, THEN conjunct1])
  moreover from assms have "distinct kvs" by (rule distinct_map [THEN iffD1, THEN conjunct1])
  ultimately show "mset ?d = mset kvs" by (simp add: set_eq_iff_mset_eq_distinct)
qed

subsection \<open>The loop over the groups as two sequences of stores\<close>

lemma collect_stats_fold:
  assumes "\<forall>x\<in>set grouped. \<exists>st. compute_prompt_stats (snd x) = Inr st"
  shows "collect_stats grouped (rs, ts) =
         Inr (fold (\<lambda>(k, v). dict_set k v) (ref_entries grouped) rs,
              fold (\<lambda>(k, v). dict_set k v) (tied_entries grouped) ts)"
  using assms
proof (induction grouped arbitrary: rs ts)
  case Nil
  then show ?case by (simp add: ref_entries_def tied_entries_def)
next
  case (Cons x grouped)
  obtain t p g where x: "x = ((t, p), g)" by (metis surj_pair)
  from Cons.prems obtain st where st: "compute_prompt_stats g = Inr st" by (auto simp: x)
  from Cons.prems have rest: "\<forall>x\<in>set grouped. \<exists>st. compute_prompt_stats (snd x) = Inr st"
    by simp
  show ?case
  proof (cases "t = ''ref''")
    case True
    then show ?thesis
      using Cons.IH [OF rest, of "dict_set p st rs" ts] st
      by (simp add: x ref_entries_def tied_entries_def)
  next
    case False
    then show ?thesis
      using Cons.IH [OF rest, of rs "dict_set p st ts"] st
      by (simp add: x ref_entries_def tied_entries_def)
  qed
qed

lemma collect_stats_Inr:
  assumes "collect_stats grouped acc = Inr r"
  shows "\<forall>x\<in>set grouped. \<exists>st. compute_prompt_stats (snd x) = Inr st"
proof
  fix x assume x: "x \<in> set grouped"
  show "\<exists>st. compute_prompt_stats (snd x) = Inr st"
  proof (cases "compute_prompt_stats (snd x)")
    case (Inl e)
    from x have "(fst x, snd x) \<in> set grouped" by simp
    from collect_stats_fails [OF this Inl, of acc] assms show ?thesis by simp
  next
    case (Inr st)
    then show ?thesis by blast
  qed
qed

subsection \<open>The prompt ids of the stored statistics are distinct\<close>

lemma set_ref_entries:
  "set (ref_entries grouped) =
   {(p, projr (compute_prompt_stats g)) | p g. ((''ref'', p), g) \<in> set grouped}"
proof (induction grouped)
  case Nil
  then show ?case by (simp add: ref_entries_def)
next
  case (Cons x grouped)
  obtain t p g where x: "x = ((t, p), g)" by (metis surj_pair)
  have "ref_entries (x # grouped) =
        (if t = ''ref'' then [(p, projr (compute_prompt_stats g))] else []) @ ref_entries grouped"
    by (simp add: x ref_entries_def)
  with Cons show ?case by (auto simp: x)
qed

lemma set_tied_entries:
  "set (tied_entries grouped) =
   {(p, projr (compute_prompt_stats g)) | t p g. t \<noteq> ''ref'' \<and> ((t, p), g) \<in> set grouped}"
proof (induction grouped)
  case Nil
  then show ?case by (simp add: tied_entries_def)
next
  case (Cons x grouped)
  obtain t p g where x: "x = ((t, p), g)" by (metis surj_pair)
  have "tied_entries (x # grouped) =
        (if t \<noteq> ''ref'' then [(p, projr (compute_prompt_stats g))] else []) @ tied_entries grouped"
    by (simp add: x tied_entries_def)
  with Cons show ?case by (auto simp: x)
qed

lemma keys_ref_entries:
  "map fst (ref_entries grouped) =
   map snd (filter (\<lambda>k. fst k = ''ref'') (map fst grouped))"
  by (induction grouped) (auto simp: ref_entries_def)

lemma keys_tied_entries:
  "map fst (tied_entries grouped) =
   map snd (filter (\<lambda>k. fst k \<noteq> ''ref'') (map fst grouped))"
  by (induction grouped) (auto simp: tied_entries_def)

lemma distinct_ref_entries:
  assumes "distinct (map fst grouped)"
  shows "distinct (map fst (ref_entries grouped))"
proof -
  let ?ks = "filter (\<lambda>k. fst k = ''ref'') (map fst grouped)"
  from assms have "distinct ?ks" by simp
  moreover have "inj_on snd (set ?ks)"
  proof (rule inj_onI)
    fix k1 k2 :: "string \<times> int"
    assume "k1 \<in> set ?ks" "k2 \<in> set ?ks" "snd k1 = snd k2"
    then show "k1 = k2" by (simp add: prod_eq_iff)
  qed
  ultimately show ?thesis by (simp only: keys_ref_entries distinct_map)
qed

lemma distinct_tied_entries:
  assumes "distinct (map fst grouped)"
    and "\<forall>k1\<in>set (map fst grouped). \<forall>k2\<in>set (map fst grouped).
           fst k1 \<noteq> ''ref'' \<and> fst k2 \<noteq> ''ref'' \<and> snd k1 = snd k2 \<longrightarrow> fst k1 = fst k2"
  shows "distinct (map fst (tied_entries grouped))"
proof -
  let ?ks = "filter (\<lambda>k. fst k \<noteq> ''ref'') (map fst grouped)"
  from assms(1) have "distinct ?ks" by simp
  moreover have "inj_on snd (set ?ks)"
  proof (rule inj_onI)
    fix k1 k2 :: "string \<times> int"
    assume a: "k1 \<in> set ?ks" "k2 \<in> set ?ks" "snd k1 = snd k2"
    then have "k1 \<in> set (map fst grouped)" "k2 \<in> set (map fst grouped)"
      "fst k1 \<noteq> ''ref''" "fst k2 \<noteq> ''ref''"
      by simp_all
    with assms(2) a(3) have "fst k1 = fst k2" by blast
    with a(3) show "k1 = k2" by (simp add: prod_eq_iff)
  qed
  ultimately show ?thesis by (simp only: keys_tied_entries distinct_map)
qed

subsection \<open>The grouping of a dataset\<close>

lemma dict_inv_Nil: "dict_inv []"
  by (simp add: dict_inv_def)

lemma grouping_facts:
  assumes "group_samples ds [] = Inr grouped"
  shows "dict_inv grouped"
    and "mset (dict_items grouped) = mset (concat (map row_items ds))"
    and "\<forall>r\<in>set ds. row_ok r"
proof -
  show ok: "\<forall>r\<in>set ds. row_ok r" using assms by (rule group_samples_Inr)
  let ?e = "[] :: (string \<times> int, (bool \<times> real) list) dict"
  from group_samples_ok [OF ok, of ?e] obtain d' where
    d: "group_samples ds ?e = Inr d'" and
    i: "dict_inv ?e \<longrightarrow> dict_inv d'" and
    m: "mset (dict_items d') = mset (dict_items ?e) + mset (concat (map row_items ds))"
    by blast
  from d assms have eq: "d' = grouped" by simp
  from i show "dict_inv grouped" unfolding eq by (simp add: dict_inv_Nil)
  have "dict_items ([] :: (string \<times> int, (bool \<times> real) list) dict) = []"
    by (simp add: dict_items_def)
  with m show "mset (dict_items grouped) = mset (concat (map row_items ds))"
    unfolding eq by (simp only: mset.simps add_0)
qed

lemma set_tied_keys:
  "set (tied_keys ds) =
   {key. fst key \<noteq> ''ref'' \<and> (\<exists>s\<in>set ds. parse_id (sample_id s) = Inr key)}"
proof (rule set_eqI)
  fix k
  have m: "k \<in> set (case parse_id (sample_id s) of Inl e \<Rightarrow> [] | Inr key \<Rightarrow> [key]) \<longleftrightarrow>
        parse_id (sample_id s) = Inr k" for s :: sample
    by (cases "parse_id (sample_id s)") auto
  have "k \<in> set (tied_keys ds) \<longleftrightarrow>
        fst k \<noteq> ''ref'' \<and>
        (\<exists>s\<in>set ds. k \<in> set (case parse_id (sample_id s) of Inl e \<Rightarrow> [] | Inr key \<Rightarrow> [key]))"
    unfolding tied_keys_def set_filter set_concat set_map by blast
  then show "k \<in> set (tied_keys ds) \<longleftrightarrow>
        k \<in> {key. fst key \<noteq> ''ref'' \<and> (\<exists>s\<in>set ds. parse_id (sample_id s) = Inr key)}"
    by (simp only: m mem_Collect_eq)
qed

lemma row_items_keys: "x \<in> set (row_items s) \<Longrightarrow> parse_id (sample_id s) = Inr (fst x)"
  by (cases "parse_id (sample_id s)") (auto simp: row_items_def)

lemma grouped_keys:
  assumes "group_samples ds [] = Inr grouped" and "k \<in> set (map fst grouped)"
  shows "\<exists>s\<in>set ds. parse_id (sample_id s) = Inr k"
proof -
  note f = grouping_facts [OF assms(1)]
  from f(1) have "fst ` set grouped = fst ` set (dict_items grouped)"
    by (simp add: dict_inv_def keys_from_items)
  moreover from f(2) have "set (dict_items grouped) = set (concat (map row_items ds))"
    by (rule mset_eq_setD)
  ultimately have "fst ` set grouped = fst ` set (dict_items grouped)"
    and "set (dict_items grouped) = set (concat (map row_items ds))"
    by blast+
  then have "fst ` set grouped = fst ` set (concat (map row_items ds))" by simp
  moreover from assms(2) have "k \<in> fst ` set grouped" by simp
  ultimately have "k \<in> fst ` set (concat (map row_items ds))" by simp
  then obtain x where "x \<in> set (concat (map row_items ds))" "fst x = k" by blast
  then obtain s where "s \<in> set ds" "x \<in> set (row_items s)" by auto
  with \<open>fst x = k\<close> show ?thesis using row_items_keys by blast
qed

lemma grouped_one_type_per_prompt:
  assumes "group_samples ds [] = Inr grouped" and "one_type_per_prompt ds"
  shows "\<forall>k1\<in>set (map fst grouped). \<forall>k2\<in>set (map fst grouped).
           fst k1 \<noteq> ''ref'' \<and> fst k2 \<noteq> ''ref'' \<and> snd k1 = snd k2 \<longrightarrow> fst k1 = fst k2"
proof (intro ballI impI)
  fix k1 k2
  assume k: "k1 \<in> set (map fst grouped)" "k2 \<in> set (map fst grouped)"
    and n: "fst k1 \<noteq> ''ref'' \<and> fst k2 \<noteq> ''ref'' \<and> snd k1 = snd k2"
  from n have n1: "fst k1 \<noteq> ''ref''" and n2: "fst k2 \<noteq> ''ref''" and e: "snd k1 = snd k2"
    by blast+
  from grouped_keys [OF assms(1) k(1)] n1 have m1: "k1 \<in> set (tied_keys ds)"
    unfolding set_tied_keys by blast
  from grouped_keys [OF assms(1) k(2)] n2 have m2: "k2 \<in> set (tied_keys ds)"
    unfolding set_tied_keys by blast
  from assms(2) have "\<forall>k1\<in>set (tied_keys ds). \<forall>k2\<in>set (tied_keys ds).
      snd k1 = snd k2 \<longrightarrow> fst k1 = fst k2"
    unfolding one_type_per_prompt_def list_all_iff .
  with m1 m2 e show "fst k1 = fst k2" by blast
qed

lemma one_type_per_prompt_mset:
  "mset ds' = mset ds \<Longrightarrow> one_type_per_prompt ds' = one_type_per_prompt ds"
proof -
  assume "mset ds' = mset ds"
  then have "set ds' = set ds" by (rule mset_eq_setD)
  then have "set (tied_keys ds') = set (tied_keys ds)" by (simp only: set_tied_keys)
  then show ?thesis unfolding one_type_per_prompt_def list_all_iff by (simp only:)
qed

subsection \<open>The statistics of a permuted dataset\<close>

lemma entries_same_groups:
  assumes "dict_inv d" and "dict_inv d'" and "mset (dict_items d) = mset (dict_items d')"
  shows "set (ref_entries d) \<subseteq> set (ref_entries d')"
    and "set (tied_entries d) \<subseteq> set (tied_entries d')"
proof -
  show "set (ref_entries d) \<subseteq> set (ref_entries d')"
  proof
    fix x assume "x \<in> set (ref_entries d)"
    then obtain p g where x: "x = (p, projr (compute_prompt_stats g))"
      and g: "((''ref'', p), g) \<in> set d"
      unfolding set_ref_entries by blast
    from same_items_same_groups [OF assms g] obtain g' where
      g': "((''ref'', p), g') \<in> set d'" "mset g' = mset g" by blast
    from g'(2) have "compute_prompt_stats g' = compute_prompt_stats g"
      by (rule compute_prompt_stats_mset)
    with x have "x = (p, projr (compute_prompt_stats g'))" by simp
    with g'(1) show "x \<in> set (ref_entries d')"
      unfolding set_ref_entries by blast
  qed
  show "set (tied_entries d) \<subseteq> set (tied_entries d')"
  proof
    fix x assume "x \<in> set (tied_entries d)"
    then obtain t p g where x: "x = (p, projr (compute_prompt_stats g))"
      and t: "t \<noteq> ''ref''" and g: "((t, p), g) \<in> set d"
      unfolding set_tied_entries by blast
    from same_items_same_groups [OF assms g] obtain g' where
      g': "((t, p), g') \<in> set d'" "mset g' = mset g" by blast
    from g'(2) have "compute_prompt_stats g' = compute_prompt_stats g"
      by (rule compute_prompt_stats_mset)
    with x have "x = (p, projr (compute_prompt_stats g'))" by simp
    with t g'(1) show "x \<in> set (tied_entries d')"
      unfolding set_tied_entries by blast
  qed
qed

lemma ties_stats_entries:
  assumes "ties_stats ds = Inr (rs, ts)" and "one_type_per_prompt ds"
  shows "\<exists>grouped. group_samples ds [] = Inr grouped \<and>
           mset rs = mset (ref_entries grouped) \<and> mset ts = mset (tied_entries grouped) \<and>
           distinct (map fst rs) \<and> distinct (map fst ts) \<and>
           distinct (map fst (ref_entries grouped)) \<and> distinct (map fst (tied_entries grouped))"
proof -
  from assms(1) obtain grouped where g: "group_samples ds [] = Inr grouped"
    and c: "collect_stats grouped ([], []) = Inr (rs, ts)"
    by (auto simp: ties_stats_def split: sum.splits)
  from grouping_facts(1) [OF g] have d: "distinct (map fst grouped)" by (simp add: dict_inv_def)
  have dr: "distinct (map fst (ref_entries grouped))" using d by (rule distinct_ref_entries)
  have dt: "distinct (map fst (tied_entries grouped))"
    using d grouped_one_type_per_prompt [OF g assms(2)] by (rule distinct_tied_entries)
  from collect_stats_fold [OF collect_stats_Inr [OF c], of "[]" "[]"] c
  have rs: "rs = fold (\<lambda>(k, v). dict_set k v) (ref_entries grouped) []"
    and ts: "ts = fold (\<lambda>(k, v). dict_set k v) (tied_entries grouped) []"
    by simp_all
  have "mset rs = mset (ref_entries grouped)" "distinct (map fst rs)"
    unfolding rs by (rule mset_fold_dict_set [OF dr])+
  moreover have "mset ts = mset (tied_entries grouped)" "distinct (map fst ts)"
    unfolding ts by (rule mset_fold_dict_set [OF dt])+
  ultimately show ?thesis using g dr dt by (intro exI [of _ grouped] conjI)
qed

lemma group_samples_perm:
  assumes "mset ds' = mset ds" and "group_samples ds [] = Inr grouped"
  shows "\<exists>grouped'. group_samples ds' [] = Inr grouped' \<and> dict_inv grouped' \<and>
           mset (dict_items grouped') = mset (dict_items grouped)"
proof -
  note f = grouping_facts [OF assms(2)]
  from assms(1) have "set ds' = set ds" by (rule mset_eq_setD)
  with f(3) have ok: "\<forall>r\<in>set ds'. row_ok r" by simp
  let ?e = "[] :: (string \<times> int, (bool \<times> real) list) dict"
  from group_samples_ok [OF ok, of ?e] obtain grouped' where
    g': "group_samples ds' ?e = Inr grouped'"
    by (elim exE conjE)
  note f' = grouping_facts [OF g']
  have "mset (dict_items grouped') = mset (dict_items grouped)"
    unfolding f(2) f'(2) using assms(1) by (rule mset_concat_map)
  with g' f'(1) show ?thesis by (intro exI [of _ grouped'] conjI)
qed

lemma same_groups_stats_ok:
  assumes "dict_inv d" and "dict_inv d'" and "mset (dict_items d') = mset (dict_items d)"
    and "\<forall>x\<in>set d. \<exists>st. compute_prompt_stats (snd x) = Inr st"
  shows "\<forall>x\<in>set d'. \<exists>st. compute_prompt_stats (snd x) = Inr st"
proof
  fix x assume "x \<in> set d'"
  then have "(fst x, snd x) \<in> set d'" by simp
  from same_items_same_groups [OF assms(2,1,3) this] obtain vs where
    vs: "(fst x, vs) \<in> set d" "mset vs = mset (snd x)" by (elim exE conjE)
  from assms(4) vs(1)
  have "\<exists>st. compute_prompt_stats (snd (fst x, vs)) = Inr st" by (rule bspec)
  then obtain st where "compute_prompt_stats vs = Inr st" by auto
  moreover have "compute_prompt_stats vs = compute_prompt_stats (snd x)"
    using vs(2) by (rule compute_prompt_stats_mset)
  ultimately have "compute_prompt_stats (snd x) = Inr st" by simp
  then show "\<exists>st. compute_prompt_stats (snd x) = Inr st" by (rule exI)
qed

lemma entries_mset_same_groups:
  assumes "dict_inv d" and "dict_inv d'" and "mset (dict_items d') = mset (dict_items d)"
    and "distinct (map fst (ref_entries d))" and "distinct (map fst (ref_entries d'))"
    and "distinct (map fst (tied_entries d))" and "distinct (map fst (tied_entries d'))"
  shows "mset (ref_entries d') = mset (ref_entries d)"
    and "mset (tied_entries d') = mset (tied_entries d)"
proof -
  have "set (ref_entries d') = set (ref_entries d)"
    using entries_same_groups(1) [OF assms(2,1,3)]
      entries_same_groups(1) [OF assms(1,2) assms(3) [symmetric]] by (rule equalityI)
  moreover have "distinct (ref_entries d')"
    using assms(5) by (rule distinct_map [THEN iffD1, THEN conjunct1])
  moreover have "distinct (ref_entries d)"
    using assms(4) by (rule distinct_map [THEN iffD1, THEN conjunct1])
  ultimately show "mset (ref_entries d') = mset (ref_entries d)"
    using set_eq_iff_mset_eq_distinct by blast
  have "set (tied_entries d') = set (tied_entries d)"
    using entries_same_groups(2) [OF assms(2,1,3)]
      entries_same_groups(2) [OF assms(1,2) assms(3) [symmetric]] by (rule equalityI)
  moreover have "distinct (tied_entries d')"
    using assms(7) by (rule distinct_map [THEN iffD1, THEN conjunct1])
  moreover have "distinct (tied_entries d)"
    using assms(6) by (rule distinct_map [THEN iffD1, THEN conjunct1])
  ultimately show "mset (tied_entries d') = mset (tied_entries d)"
    using set_eq_iff_mset_eq_distinct by blast
qed

lemma ties_stats_perm:
  assumes "mset ds' = mset ds" and "one_type_per_prompt ds"
    and "ties_stats ds = Inr (rs, ts)"
  shows "\<exists>rs' ts'. ties_stats ds' = Inr (rs', ts') \<and> mset rs' = mset rs \<and> mset ts' = mset ts \<and>
           distinct (map fst rs) \<and> distinct (map fst ts) \<and>
           distinct (map fst rs') \<and> distinct (map fst ts')"
proof -
  from ties_stats_entries [OF assms(3,2)] obtain grouped where
    g: "group_samples ds [] = Inr grouped" and
    e: "mset rs = mset (ref_entries grouped)" "mset ts = mset (tied_entries grouped)" and
    d: "distinct (map fst rs)" "distinct (map fst ts)" and
    de: "distinct (map fst (ref_entries grouped))" "distinct (map fst (tied_entries grouped))"
    by (elim exE conjE)
  from assms(3) g have c: "collect_stats grouped ([], []) = Inr (rs, ts)"
    by (simp add: ties_stats_def)
  note f = grouping_facts [OF g]
  from group_samples_perm [OF assms(1) g] obtain grouped' where
    g': "group_samples ds' [] = Inr grouped'" and i': "dict_inv grouped'" and
    items: "mset (dict_items grouped') = mset (dict_items grouped)"
    by (elim exE conjE)
  have ok': "\<forall>x\<in>set grouped'. \<exists>st. compute_prompt_stats (snd x) = Inr st"
    using f(1) i' items collect_stats_Inr [OF c] by (rule same_groups_stats_ok)
  let ?rs' = "fold (\<lambda>(k, v). dict_set k v) (ref_entries grouped') []"
  let ?ts' = "fold (\<lambda>(k, v). dict_set k v) (tied_entries grouped') []"
  have "collect_stats grouped' ([], []) = Inr (?rs', ?ts')"
    using ok' by (rule collect_stats_fold)
  with g' have st': "ties_stats ds' = Inr (?rs', ?ts')"
    by (simp add: ties_stats_def)
  have o': "one_type_per_prompt ds'"
    using one_type_per_prompt_mset [OF assms(1)] assms(2) by simp
  from ties_stats_entries [OF st' o'] obtain g2 where
    gg: "group_samples ds' [] = Inr g2" and
    e2: "mset ?rs' = mset (ref_entries g2)" "mset ?ts' = mset (tied_entries g2)"
    "distinct (map fst ?rs')" "distinct (map fst ?ts')"
    "distinct (map fst (ref_entries g2))" "distinct (map fst (tied_entries g2))"
    by (elim exE conjE)
  from gg g' have g2: "g2 = grouped'" by simp
  note e' = e2(1,2) [unfolded g2] and d' = e2(3,4) and de' = e2(5,6) [unfolded g2]
  note m = entries_mset_same_groups [OF f(1) i' items de(1) de'(1) de(2) de'(2)]
  have "mset ?rs' = mset rs" unfolding e'(1) e(1) by (rule m(1))
  moreover have "mset ?ts' = mset ts" unfolding e'(2) e(2) by (rule m(2))
  ultimately show ?thesis
    using st' d d' by (intro exI [of _ ?rs'] exI [of _ ?ts'] conjI)
qed

subsection \<open>The metrics do not depend on the order of the dictionaries\<close>

lemma np_mean_mset:
  assumes "mset xs = mset ys"
  shows "np_mean xs = np_mean ys"
proof -
  from assms have "length xs = length ys" by (rule mset_eq_length)
  moreover have "sum_list xs = sum_list ys"
    using assms sum_mset_sum_list [of xs] sum_mset_sum_list [of ys] by simp
  moreover from \<open>length xs = length ys\<close> have "xs = [] \<longleftrightarrow> ys = []" by auto
  ultimately show ?thesis by (simp add: np_mean_def)
qed

lemma np_mean_map_mset: "mset ps' = mset ps \<Longrightarrow> np_mean (map f ps') = np_mean (map f ps)"
  by (rule np_mean_mset) simp

lemma accuracy_mset:
  assumes "mset stats' = mset stats"
  shows "accuracy stats' = accuracy stats"
proof -
  from assms have "length stats' = length stats" by (rule mset_eq_length)
  then have "stats' = [] \<longleftrightarrow> stats = []" by auto
  then show ?thesis
    using np_mean_map_mset [OF assms] by (simp add: accuracy_def)
qed

lemma map_of_mset:
  assumes "mset d' = mset d" and "distinct (map fst d)" and "distinct (map fst d')"
  shows "map_of d' = map_of d"
proof -
  from assms(1) have "set d' = set d" by (rule mset_eq_setD)
  with assms(2,3) show ?thesis by (simp add: map_of_inject_set)
qed

lemma common_prompts_mset:
  assumes "mset rs' = mset rs" and "mset ts' = mset ts"
  shows "mset (common_prompts rs' ts') = mset (common_prompts rs ts)"
proof -
  from assms(2) have "set ts' = set ts" by (rule mset_eq_setD)
  then have "set (map fst ts') = set (map fst ts)" by simp
  moreover have "mset (map fst rs') = mset (map fst rs)" using assms(1) by simp
  ultimately show ?thesis by (simp only: common_prompts_def mset_filter)
qed

lemma ties_metrics_cong:
  assumes "map_of rs' = map_of rs" and "map_of ts' = map_of ts"
    and "accuracy rs' = accuracy rs" and "accuracy ts' = accuracy ts"
    and "mset ps' = mset ps"
  shows "ties_metrics rs' ts' ps' = ties_metrics rs ts ps"
proof -
  from assms(5) have "set ps' = set ps" by (rule mset_eq_setD)
  then show ?thesis
    unfolding ties_metrics_eq assms(1-4) np_mean_map_mset [OF assms(5)] by (simp only:)
qed

lemma metrics_order:
  "mset ps' = mset ps \<Longrightarrow> ties_metrics rs ts ps' = ties_metrics rs ts ps"
  by (rule ties_metrics_cong) simp_all

lemma ties_score_perm:
  assumes "mset ds' = mset ds" and "one_type_per_prompt ds" and "ties_score ds = Inr s"
  shows "ties_score ds' = Inr s"
proof -
  from assms(3) obtain rs ts m where
    st: "ties_stats ds = Inr (rs, ts)" and
    m: "ties_metrics rs ts (common_prompts rs ts) = Inr m" and
    s: "s = weighted_sum m"
    by (auto simp: ties_score_def split: sum.splits)
  from ties_stats_perm [OF assms(1,2) st] obtain rs' ts' where
    st': "ties_stats ds' = Inr (rs', ts')" and
    e: "mset rs' = mset rs" "mset ts' = mset ts" and
    d: "distinct (map fst rs)" "distinct (map fst ts)"
       "distinct (map fst rs')" "distinct (map fst ts')"
    by (elim exE conjE)
  have "ties_metrics rs' ts' (common_prompts rs' ts') =
        ties_metrics rs ts (common_prompts rs ts)"
    using map_of_mset [OF e(1) d(1,3)] map_of_mset [OF e(2) d(2,4)]
      accuracy_mset [OF e(1)] accuracy_mset [OF e(2)] common_prompts_mset [OF e]
    by (rule ties_metrics_cong)
  with st' m s show ?thesis by (simp add: ties_score_def)
qed

text \<open>
  With numbers as scores, and when no prompt id occurs under two different sample types
  other than \<open>ref\<close>, the call returns the same overall score on every permutation
  of the rows, or raises on all of them.
\<close>

lemma process_single_model_perm:
  assumes "mset (rows dataset') = mset (rows dataset)"
    and "one_type_per_prompt (rows dataset)"
  shows "(\<forall>results overall_score.
            process_single_model dataset = Inr (results, overall_score) \<longrightarrow>
            (\<exists>results'. process_single_model dataset' = Inr (results', overall_score))) \<and>
         ((\<exists>e. process_single_model dataset = Inl e) \<longrightarrow>
            (\<exists>e'. process_single_model dataset' = Inl e')) \<and>
         (\<forall>rs ts ps. mset ps = mset (common_prompts rs ts) \<longrightarrow>
            ties_metrics rs ts ps = ties_metrics rs ts (common_prompts rs ts))"
proof (intro conjI allI impI)
  fix results overall_score
  assume "process_single_model dataset = Inr (results, overall_score)"
  then have "ties_score (rows dataset) = Inr overall_score"
    by (auto simp: process_single_model_def split: sum.splits)
  with assms have "ties_score (rows dataset') = Inr overall_score"
    by (rule ties_score_perm)
  then show "\<exists>results'. process_single_model dataset' = Inr (results', overall_score)"
    by (simp add: process_single_model_def)
next
  assume "\<exists>e. process_single_model dataset = Inl e"
  then obtain e where e: "ties_score (rows dataset) = Inl e"
    by (auto simp: process_single_model_def split: sum.splits)
  show "\<exists>e'. process_single_model dataset' = Inl e'"
  proof (cases "ties_score (rows dataset')")
    case (Inl e')
    then show ?thesis by (simp add: process_single_model_def)
  next
    case (Inr s)
    have "one_type_per_prompt (rows dataset')"
      using one_type_per_prompt_mset [OF assms(1)] assms(2) by simp
    with assms(1) [symmetric] have "ties_score (rows dataset) = Inr s"
      using Inr by (rule ties_score_perm)
    with e show ?thesis by simp
  qed
next
  fix rs ts ps
  assume "mset ps = mset (common_prompts rs ts)"
  then show "ties_metrics rs ts ps = ties_metrics rs ts (common_prompts rs ts)"
    by (rule metrics_order)
qed

section \<open>Datasets on which the call returns\<close>

text \<open>What \<open>tied_stats\<close> holds after the loop over the groups.\<close>

lemma tied_stats_entries:
  assumes "collect_stats grouped ([], []) = Inr (rs, ts)" and "map_of ts p = Some st"
  shows "\<exists>t g. t \<noteq> ''ref'' \<and> ((t, p), g) \<in> set grouped \<and> compute_prompt_stats g = Inr st"
proof -
  note ok = collect_stats_Inr [OF assms(1)]
  from collect_stats_fold [OF ok, of "[]" "[]"] assms(1)
  have "ts = fold (\<lambda>(k, v). dict_set k v) (tied_entries grouped) []" by simp
  then have "map_of ts = map_of (rev (tied_entries grouped))"
    by (simp add: map_of_fold_dict_set)
  with assms(2) have "map_of (rev (tied_entries grouped)) p = Some st" by simp
  then have "(p, st) \<in> set (rev (tied_entries grouped))" by (rule map_of_SomeD)
  then have "(p, st) \<in> set (tied_entries grouped)" by simp
  then obtain t g where t: "t \<noteq> ''ref''" and g: "((t, p), g) \<in> set grouped"
    and st: "st = projr (compute_prompt_stats g)"
    unfolding set_tied_entries by blast
  from ok g have "\<exists>st'. compute_prompt_stats (snd ((t, p), g)) = Inr st'" by (rule bspec)
  then obtain st' where "compute_prompt_stats g = Inr st'" by auto
  with st have "compute_prompt_stats g = Inr st" by simp
  with t g show ?thesis by blast
qed

text \<open>
  The call returns when the rows are grouped without an exception, every group has a
  correct and an incorrect entry, and every group of a type other than \<open>ref\<close> has
  two correct entries or more.
\<close>

lemma process_single_model_returns:
  assumes "group_samples (rows dataset) [] = Inr grouped"
    and "\<forall>x\<in>set grouped. correct_scores (snd x) \<noteq> [] \<and> incorrect_scores (snd x) \<noteq> []"
    and "\<forall>x\<in>set grouped. fst (fst x) \<noteq> ''ref'' \<longrightarrow> 1 < length (correct_scores (snd x))"
  shows "\<exists>overall_score.
           process_single_model dataset = Inr (package_results dataset, overall_score)"
proof -
  have ok: "\<forall>x\<in>set grouped. \<exists>st. compute_prompt_stats (snd x) = Inr st"
  proof
    fix x assume "x \<in> set grouped"
    with assms(2) have "correct_scores (snd x) \<noteq> []" "incorrect_scores (snd x) \<noteq> []"
      by blast+
    from compute_prompt_stats_ok [OF this] show "\<exists>st. compute_prompt_stats (snd x) = Inr st"
      by (rule exI)
  qed
  let ?rs = "fold (\<lambda>(k, v). dict_set k v) (ref_entries grouped) []"
  let ?ts = "fold (\<lambda>(k, v). dict_set k v) (tied_entries grouped) []"
  let ?ps = "common_prompts ?rs ?ts"
  have c: "collect_stats grouped ([], []) = Inr (?rs, ?ts)"
    using ok by (rule collect_stats_fold)
  with assms(1) have st: "ties_stats (rows dataset) = Inr (?rs, ?ts)"
    by (simp add: ties_stats_def)
  have k: "set ?ps \<subseteq> dom (map_of ?ts)" "set ?ps \<subseteq> dom (map_of ?rs)"
    by (auto simp: common_prompts_def dom_map_of_conv_image_fst)
  have n: "fst (snd (the (map_of ?ts p))) \<noteq> None" if "p \<in> set ?ps" for p
  proof -
    from that k(1) obtain s where s: "map_of ?ts p = Some s" by blast
    from tied_stats_entries [OF c s] obtain t g where
      t: "t \<noteq> ''ref''" and g: "((t, p), g) \<in> set grouped" and
      e: "compute_prompt_stats g = Inr s"
      by blast
    from assms(2) g have "correct_scores g \<noteq> []" "incorrect_scores g \<noteq> []" by force+
    note compute_prompt_stats_ok [OF this]
    moreover from assms(3) g t have "1 < length (correct_scores g)" by force
    ultimately have "fst (snd s) \<noteq> None" using e by simp
    with s show ?thesis by simp
  qed
  from k n have "\<exists>m. ties_metrics ?rs ?ts ?ps = Inr m"
    unfolding ties_metrics_eq by auto
  then obtain m where "ties_metrics ?rs ?ts ?ps = Inr m" ..
  with st have "ties_score (rows dataset) = Inr (weighted_sum m)"
    by (simp add: ties_score_def)
  then show ?thesis by (simp add: process_single_model_def)
qed

section \<open>Scores that may be NaN\<close>

subsection \<open>Evaluation\<close>



subsection \<open>On numbers the two levels agree\<close>

lemma unwrap_score_num: "unwrap_score_f (num_raw r) = map_sum id Num (unwrap_score r)"
  by (cases r rule: unwrap_score.cases) simp_all

lemma dict_append_map:
  "dict_append k (f v) (map (apsnd (map f)) d) = map (apsnd (map f)) (dict_append k v d)"
  by (induction d) auto

lemma dict_set_map:
  "dict_set k (f v) (map (apsnd f) d) = map (apsnd f) (dict_set k v d)"
  by (induction d) auto

lemma add_scores_num:
  "add_scores_f key nc i (map num_raw rs) (map (apsnd (map (apsnd Num))) g) =
   map_sum id (map (apsnd (map (apsnd Num)))) (add_scores key nc i rs g)"
proof (induction rs arbitrary: i g)
  case Nil
  then show ?case by simp
next
  case (Cons r rs)
  show ?case
  proof (cases "unwrap_score r")
    case (Inl e)
    then show ?thesis by (simp add: unwrap_score_num)
  next
    case (Inr x)
    have "dict_append key (int i < nc, Num x) (map (apsnd (map (apsnd Num))) g) =
          map (apsnd (map (apsnd Num))) (dict_append key (int i < nc, x) g)"
      using dict_append_map [of key "apsnd Num" "(int i < nc, x)" g] by simp
    with Inr Cons.IH [of "Suc i" "dict_append key (int i < nc, x) g"] show ?thesis
      by (simp add: unwrap_score_num)
  qed
qed

lemma group_samples_num:
  "group_samples_f (map num_sample ds) (map (apsnd (map (apsnd Num))) g) =
   map_sum id (map (apsnd (map (apsnd Num)))) (group_samples ds g)"
proof (induction ds arbitrary: g)
  case Nil
  then show ?case by simp
next
  case (Cons s ds)
  show ?case
  proof (cases "parse_id (sample_id s)")
    case (Inl e)
    then show ?thesis by (simp add: num_sample_def)
  next
    case (Inr key)
    show ?thesis
    proof (cases "add_scores key (num_correct s) 0 (scores s) g")
      case (Inl e)
      with Inr add_scores_num [of key "num_correct s" 0 "scores s" g] show ?thesis
        by (simp add: num_sample_def)
    next
      case g': (Inr g')
      with Inr add_scores_num [of key "num_correct s" 0 "scores s" g] Cons.IH [of g']
      show ?thesis by (simp add: num_sample_def)
    qed
  qed
qed

lemma fold_max_num:
  "fold (\<lambda>item m. if fl_less m item then item else m) (map Num xs) (Num x) =
   Num (fold (\<lambda>item m. if m < item then item else m) xs x)"
  by (induction xs arbitrary: x) (simp_all add: fl_less_def)

lemma fold_min_num:
  "fold (\<lambda>item m. if fl_less item m then item else m) (map Num xs) (Num x) =
   Num (fold (\<lambda>item m. if item < m then item else m) xs x)"
  by (induction xs arbitrary: x) (simp_all add: fl_less_def)

lemma py_max_num: "py_max_f (map Num xs) = map_sum id Num (py_max xs)"
  by (cases xs) (simp_all add: fold_max_num)

lemma py_min_num: "py_min_f (map Num xs) = map_sum id Num (py_min xs)"
  by (cases xs) (simp_all add: fold_min_num)

lemma correct_scores_num: "correct_scores_f (map (apsnd Num) g) = map Num (correct_scores g)"
  by (induction g) (auto simp: correct_scores_f_def correct_scores_def)

lemma incorrect_scores_num: "incorrect_scores_f (map (apsnd Num) g) = map Num (incorrect_scores g)"
  by (induction g) (auto simp: incorrect_scores_f_def incorrect_scores_def)

lemma compute_prompt_stats_num:
  "compute_prompt_stats_f (map (apsnd Num) g) = map_sum id num_stats (compute_prompt_stats g)"
proof -
  have "compute_prompt_stats_f (map (apsnd Num) g) =
     (case py_max (correct_scores g) of
        Inl e \<Rightarrow> Inl e
      | Inr best_correct \<Rightarrow>
     (case py_min (correct_scores g) of
        Inl e \<Rightarrow> Inl e
      | Inr worst_correct \<Rightarrow>
     (case py_max (incorrect_scores g) of
        Inl e \<Rightarrow> Inl e
      | Inr best_incorrect \<Rightarrow>
          Inr (0 < worst_correct - best_incorrect,
               (if length (correct_scores g) > 1
                then Some (Num (best_correct - worst_correct)) else None),
               Num (worst_correct - best_incorrect)))))"
    by (simp add: compute_prompt_stats_f_def correct_scores_num incorrect_scores_num
        py_max_num py_min_num fl_sub_def fl_less_def Let_def split: sum.splits)
  also have "\<dots> = map_sum id num_stats (compute_prompt_stats g)"
    by (simp add: compute_prompt_stats_def num_stats_def Let_def split: sum.splits)
  finally show ?thesis .
qed

lemma collect_stats_num:
  "collect_stats_f (map (apsnd (map (apsnd Num))) gs)
     (map (apsnd num_stats) rs, map (apsnd num_stats) ts) =
   map_sum id (map_prod (map (apsnd num_stats)) (map (apsnd num_stats)))
     (collect_stats gs (rs, ts))"
proof (induction gs arbitrary: rs ts)
  case Nil
  then show ?case by simp
next
  case (Cons x gs)
  obtain t p g where x: "x = ((t, p), g)" by (metis surj_pair)
  show ?case
  proof (cases "compute_prompt_stats g")
    case (Inl e)
    then show ?thesis by (simp add: x compute_prompt_stats_num)
  next
    case (Inr st)
    have r: "dict_set p (num_stats st) (map (apsnd num_stats) rs) =
             map (apsnd num_stats) (dict_set p st rs)"
      by (rule dict_set_map)
    have s: "dict_set p (num_stats st) (map (apsnd num_stats) ts) =
             map (apsnd num_stats) (dict_set p st ts)"
      by (rule dict_set_map)
    show ?thesis
    proof (cases "t = ''ref''")
      case True
      with Inr Cons.IH [of "dict_set p st rs" ts] show ?thesis
        by (simp add: x compute_prompt_stats_num r)
    next
      case False
      with Inr Cons.IH [of rs "dict_set p st ts"] show ?thesis
        by (simp add: x compute_prompt_stats_num s)
    qed
  qed
qed

lemma ties_stats_num:
  "ties_stats_f (map num_sample ds) =
   map_sum id (map_prod (map (apsnd num_stats)) (map (apsnd num_stats))) (ties_stats ds)"
proof -
  have g: "group_samples_f (map num_sample ds) [] =
           map_sum id (map (apsnd (map (apsnd Num)))) (group_samples ds [])"
    using group_samples_num [of ds "[]"] by simp
  show ?thesis
  proof (cases "group_samples ds []")
    case (Inl e)
    with g show ?thesis by (simp add: ties_stats_f_def ties_stats_def)
  next
    case (Inr gs)
    with g collect_stats_num [of gs "[]" "[]"] show ?thesis
      by (simp add: ties_stats_f_def ties_stats_def)
  qed
qed

lemma accuracy_num: "accuracy_f (map (apsnd num_stats) st) = accuracy st"
proof -
  have "map (\<lambda>(pid, s). of_bool (fst s) :: real) (map (apsnd num_stats) st) =
        map (\<lambda>(pid, s). of_bool (fst s)) st"
    by (induction st) (auto simp: num_stats_def)
  then show ?thesis by (simp add: accuracy_f_def accuracy_def del: map_map)
qed

lemma common_prompts_num:
  "common_prompts_f (map (apsnd num_stats) rs) (map (apsnd num_stats) ts) = common_prompts rs ts"
  by (simp add: common_prompts_f_def common_prompts_def o_def)

lemma map_of_apsnd: "map_of (map (apsnd f) d) k = map_option f (map_of d k)"
  by (induction d) auto

lemma dict_get_all_map:
  "dict_get_all (map (apsnd f) d) ks = map_sum id (map f) (dict_get_all d ks)"
  by (induction ks) (auto simp: dict_get_def map_of_apsnd split: option.splits sum.splits)

lemma as_float_array_num:
  "as_float_array_f (map (map_option Num) xs) = map_sum id (map Num) (as_float_array xs)"
  by (induction xs rule: as_float_array.induct) (auto split: sum.splits)

lemma map2_num:
  "map2 g (map Num xs) (map Num ys) = map2 (\<lambda>x y. g (Num x) (Num y)) xs ys"
  by (induction xs arbitrary: ys) (auto simp: zip_Cons1 split: list.splits)

lemma ties_metrics_num:
  "ties_metrics_f (map (apsnd num_stats) rs) (map (apsnd num_stats) ts) ps = ties_metrics rs ts ps"
proof (cases "dict_get_all ts ps")
  case (Inl e)
  then show ?thesis by (simp add: ties_metrics_f_def ties_metrics_def dict_get_all_map)
next
  case tied: (Inr tied)
  show ?thesis
  proof (cases "dict_get_all rs ps")
    case (Inl e)
    with tied show ?thesis by (simp add: ties_metrics_f_def ties_metrics_def dict_get_all_map)
  next
    case ref: (Inr ref)
    have d: "map (\<lambda>s. fst (snd s)) (map num_stats tied) =
             map (map_option Num) (map (\<lambda>s. fst (snd s)) tied)"
      by (simp add: num_stats_def)
    have m: "map (\<lambda>s. snd (snd s)) (map num_stats xs) = map Num (map (\<lambda>s. snd (snd s)) xs)"
      for xs by (simp add: num_stats_def)
    show ?thesis
    proof (cases "as_float_array (map (\<lambda>s. fst (snd s)) tied)")
      case (Inl e)
      with tied ref show ?thesis
        by (simp add: ties_metrics_f_def ties_metrics_def dict_get_all_map d as_float_array_num
            del: map_map)
    next
      case dcm: (Inr dcm)
      have mn: "map2 np_minimum (map Num xs) (map Num ys) = map Num (map2 min xs ys)" for xs ys
        by (induction xs arbitrary: ys) (auto simp: zip_Cons1 np_minimum_def split: list.splits)
      from tied ref dcm show ?thesis
        by (simp add: ties_metrics_f_def ties_metrics_def dict_get_all_map d m as_float_array_num
            accuracy_num mn Let_def del: map_map)
          (simp add: map2_num fl_less_def fl_divide_def del: map_map)
    qed
  qed
qed

lemma ties_score_num: "ties_score_f (map num_sample ds) = ties_score ds"
proof (cases "ties_stats ds")
  case (Inl e)
  then show ?thesis by (simp add: ties_score_f_def ties_score_def ties_stats_num)
next
  case (Inr st)
  obtain rs ts where st: "st = (rs, ts)" by (cases st)
  with Inr show ?thesis
    by (simp add: ties_score_f_def ties_score_def ties_stats_num ties_metrics_num
        common_prompts_num)
qed



lemma frows_num_dataset [simp]:
  "frows (num_dataset d) = map num_sample (rows d)"
  "fcolumn_names (num_dataset d) = column_names d"
  by (simp_all add: num_dataset_def)

lemma remove_columns_num:
  "remove_columns_f c (num_dataset d) = num_dataset (remove_columns c d)"
  by (simp add: remove_columns_f_def remove_columns_def num_dataset_def num_sample_def)

lemma add_column_rows_num:
  "map2 (\<lambda>x y. x\<lparr>fother := (fother x)(c \<mapsto> y)\<rparr>) (map num_sample xs) ys =
   map num_sample (map2 (\<lambda>x y. x\<lparr>other := (other x)(c \<mapsto> y)\<rparr>) xs ys)"
proof (induction xs arbitrary: ys)
  case Nil
  then show ?case by simp
next
  case (Cons x xs)
  then show ?case by (cases ys) (simp_all add: num_sample_def cong: if_cong)
qed

lemma add_column_num:
  "add_column_f c vs (num_dataset d) = num_dataset (add_column c vs d)"
  by (simp add: add_column_f_def add_column_def num_dataset_def add_column_rows_num
      del: map_map)

lemma package_results_num:
  "package_results_f (num_dataset d) = num_dataset (package_results d)"
  by (simp add: package_results_f_def package_results_def Let_def remove_columns_num
      add_column_num)

lemma process_single_model_num:
  "process_single_model_f (num_dataset d) =
   (case process_single_model d of
      Inl e \<Rightarrow> Inl e
    | Inr (results, overall_score) \<Rightarrow> Inr (num_dataset results, overall_score))"
  by (simp add: process_single_model_f_def process_single_model_def package_results_num
      ties_score_num split: sum.splits)

subsection \<open>The float-level metrics, prompt by prompt\<close>




subsection \<open>Permuted rows with numbers as scores\<close>







section \<open>Sample types other than \<open>ref\<close>\<close>









text \<open>
  Two groups of one prompt id under two sample types other than \<open>ref\<close> are both
  stored under that prompt id of \<open>tied_stats\<close>, and the one grouped last is the
  one that stays.
\<close>

lemma other_type_overwrites_tied:
  "mset (rows (overwrite_dataset\<lparr>rows := rev (rows overwrite_dataset)\<rparr>)) =
     mset (rows overwrite_dataset) \<and>
   process_single_model overwrite_dataset =
     Inr (package_results overwrite_dataset, Fin (3 / 10 + tanh (- 5) / 100)) \<and>
   process_single_model (overwrite_dataset\<lparr>rows := rev (rows overwrite_dataset)\<rparr>) =
     Inr (package_results (overwrite_dataset\<lparr>rows := rev (rows overwrite_dataset)\<rparr>),
          Fin (1 + tanh 2 / 100)) \<and>
   3 / 10 + tanh (- 5 :: real) / 100 \<noteq> 1 + tanh (2 :: real) / 100"
proof -
  have "tanh (- 5 :: real) < 0" "0 < tanh (2 :: real)" by simp_all
  then have "3 / 10 + tanh (- 5 :: real) / 100 \<noteq> 1 + tanh (2 :: real) / 100" by linarith
  moreover have "process_single_model overwrite_dataset =
     Inr (package_results overwrite_dataset, Fin (3 / 10 + tanh (- 5) / 100))"
    by (simp add: overwrite_dataset_def ties_eval parse_id_eval)
  moreover have "process_single_model (overwrite_dataset\<lparr>rows := rev (rows overwrite_dataset)\<rparr>) =
     Inr (package_results (overwrite_dataset\<lparr>rows := rev (rows overwrite_dataset)\<rparr>),
          Fin (1 + tanh 2 / 100))"
    by (simp add: overwrite_dataset_def ties_eval parse_id_eval)
  ultimately show ?thesis by simp
qed

end
